theory Spec2Isabelle
  imports Main "HOL-Library.Word"
begin

unbundle bit_operations_syntax

section \<open>Go values shared by both source files\<close>

text \<open>
  A Go \<open>error\<close> is modelled by its kind and message: \<open>librbd.ErrNotFound\<close> is
  the one sentinel the sources test with \<open>errors.Is\<close>; every other error is its text.
  A function returning \<open>(T, error)\<close> returns \<open>go_error + T\<close>, a function returning
  only \<open>error\<close> returns \<open>go_error option\<close> (\<open>None\<close> is \<open>nil\<close>).
\<close>

datatype go_error = ErrNotFound | ErrMsg string

subsection \<open>Strings (packages strings and strconv of the Go standard library)\<close>

text \<open>
  A Go string is its list of bytes. The models below are those of the standard library
  on ASCII text: \<open>isSpace\<close> is \<open>unicode.IsSpace\<close> on the ASCII range (tab, line feed,
  vertical tab, form feed, carriage return, space); the white space runes beyond ASCII
  are multi-byte in UTF-8 and are not treated as white space here.
\<close>

definition isSpace :: "char \<Rightarrow> bool" where
  "isSpace c = (c = CHR '' '' \<or> c = CHR 0x09 \<or> c = CHR 0x0A \<or> c = CHR 0x0B
                \<or> c = CHR 0x0C \<or> c = CHR 0x0D)"

definition isDigit :: "char \<Rightarrow> bool" where
  "isDigit c = (c \<in> set ''0123456789'')"

definition digitVal :: "char \<Rightarrow> nat" where
  "digitVal c = of_char c - 48"

text \<open>\<open>strings.TrimSpace\<close>: leading and trailing white space removed.\<close>

definition TrimSpace :: "string \<Rightarrow> string" where
  "TrimSpace s = rev (dropWhile isSpace (rev (dropWhile isSpace s)))"

text \<open>\<open>strings.TrimPrefix s prefix\<close>: \<open>s\<close> without the leading \<open>prefix\<close>, or \<open>s\<close>
  itself when it does not start with \<open>prefix\<close>.\<close>

definition TrimPrefix :: "string \<Rightarrow> string \<Rightarrow> string" where
  "TrimPrefix s pre = (if take (length pre) s = pre then drop (length pre) s else s)"

text \<open>\<open>strings.Fields\<close>: the maximal runs of non-space bytes, in order.\<close>

function Fields :: "string \<Rightarrow> string list" where
  "Fields s =
     (let s' = dropWhile isSpace s in
      if s' = [] then []
      else takeWhile (\<lambda>c. \<not> isSpace c) s' # Fields (dropWhile (\<lambda>c. \<not> isSpace c) s'))"
  by pat_completeness auto
termination
proof (relation "measure length")
  show "wf (measure length)" by simp
next
  fix s s' :: string
  assume s': "s' = dropWhile isSpace s" and ne: "s' \<noteq> []"
  from ne obtain c cs where cs: "s' = c # cs" by (cases s') auto
  from s' ne cs have "\<not> isSpace c" by (metis hd_dropWhile list.sel(1))
  then have "dropWhile (\<lambda>c. \<not> isSpace c) s' = dropWhile (\<lambda>c. \<not> isSpace c) cs"
    by (simp add: cs)
  then have "length (dropWhile (\<lambda>c. \<not> isSpace c) s') \<le> length cs"
    by (simp add: length_dropWhile_le)
  also have "length cs < length s'" by (simp add: cs)
  also have "length s' \<le> length s" by (simp add: s' length_dropWhile_le)
  finally show "(dropWhile (\<lambda>c. \<not> isSpace c) s', s) \<in> measure length" by simp
qed

declare Fields.simps [simp del]

text \<open>\<open>strings.Contains s sub\<close>: \<open>sub\<close> occurs in \<open>s\<close> as a contiguous run.\<close>

fun Contains :: "string \<Rightarrow> string \<Rightarrow> bool" where
  "Contains [] sub = (sub = [])"
| "Contains (c # cs) sub = (take (length sub) (c # cs) = sub \<or> Contains cs sub)"

text \<open>The value of a run of decimal digits, most significant first.\<close>

definition decimal :: "string \<Rightarrow> nat" where
  "decimal ds = foldl (\<lambda>n c. 10 * n + digitVal c) 0 ds"

text \<open>\<open>strconv.Atoi\<close> with a 64-bit \<open>int\<close>: an optional sign, then one or more decimal
  digits and nothing else; a value outside the range of \<open>int\<close> is an error.\<close>

definition Atoi :: "string \<Rightarrow> int option" where
  "Atoi s =
     (let neg = (s \<noteq> [] \<and> hd s = CHR ''-'');
          ds = (if s \<noteq> [] \<and> (hd s = CHR ''-'' \<or> hd s = CHR ''+'') then tl s else s)
      in if ds = [] \<or> \<not> list_all isDigit ds then None
         else
           (let v = (if neg then - int (decimal ds) else int (decimal ds))
            in if v < - (2 ^ 63) \<or> 2 ^ 63 - 1 < v then None else Some v))"

text \<open>The text of an error (\<open>err.Error()\<close>).\<close>

fun errorText :: "go_error \<Rightarrow> string" where
  "errorText (ErrMsg s) = s"
| "errorText ErrNotFound = ''rbd: not found''"

text \<open>The verb \<open>%q\<close> of \<open>fmt\<close> on a string: the text in double quotes, with a
  backslash before every double quote and backslash. The escapes of control and
  non-ASCII bytes are left out of the model.\<close>

definition quote :: "string \<Rightarrow> string" where
  "quote s =
     CHR 0x22 # concat (map (\<lambda>c. if c = CHR 0x22 \<or> c = CHR 0x5C then [CHR 0x5C, c] else [c]) s)
       @ [CHR 0x22]"

subsection \<open>IP addresses (packages net and net/netip of the Go standard library)\<close>

text \<open>
  \<open>net.IP\<close> and \<open>net.IPMask\<close> are byte slices of length 4 or 16; \<open>nil\<close> is the empty
  list. The functions below are the standard library's, restated on lists: the methods
  \<open>To4\<close>, \<open>Mask\<close>, \<open>String\<close> of \<open>net.IP\<close>, \<open>Contains\<close> of \<open>net.IPNet\<close>, and
  \<open>net.CIDRMask\<close>, \<open>net.ParseIP\<close>, \<open>net.ParseCIDR\<close> (which read the text with
  \<open>netip.ParseAddr\<close>).
\<close>

type_synonym byte = "8 word"
type_synonym IP = "byte list"
type_synonym IPMask = "byte list"

record IPNet =
  IP :: IP
  Mask :: IPMask

definition v4InV6Prefix :: "byte list" where
  "v4InV6Prefix = [0, 0, 0, 0, 0, 0, 0, 0, 0, 0, 0xff, 0xff]"

text \<open>\<open>To4\<close>: the 4-byte form of an IPv4 address, \<open>nil\<close> if \<open>ip\<close> is not one.\<close>

definition To4 :: "IP \<Rightarrow> IP" where
  "To4 ip =
     (if length ip = 4 then ip
      else if length ip = 16 \<and> take 12 ip = v4InV6Prefix then drop 12 ip
      else [])"

text \<open>\<open>CIDRMask ones bits\<close>: \<open>ones\<close> one bits followed by zero bits, \<open>bits\<close> bits in
  all; the loop of the library over the \<open>bits / 8\<close> bytes, \<open>n\<close> the one bits left.\<close>

fun CIDRMask_loop :: "nat \<Rightarrow> nat \<Rightarrow> byte list" where
  "CIDRMask_loop n 0 = []"
| "CIDRMask_loop n (Suc l) =
     (if 8 \<le> n then 0xff # CIDRMask_loop (n - 8) l
      else NOT (drop_bit n 0xff) # CIDRMask_loop 0 l)"

definition CIDRMask :: "nat \<Rightarrow> nat \<Rightarrow> IPMask" where
  "CIDRMask ones bits =
     (if bits \<noteq> 32 \<and> bits \<noteq> 128 then []
      else if bits < ones then []
      else CIDRMask_loop ones (bits div 8))"

text \<open>\<open>ip.Mask(mask)\<close>: the bytes of \<open>ip\<close> and \<open>mask\<close> combined by \<open>AND\<close>, after an
  IPv4 address or mask given in 16 bytes has been cut to 4; \<open>nil\<close> if the lengths differ.\<close>

definition IP_Mask :: "IP \<Rightarrow> IPMask \<Rightarrow> IP" where
  "IP_Mask ip msk =
     (let msk1 = (if length msk = 16 \<and> length ip = 4 \<and> take 12 msk = replicate 12 0xff
                   then drop 12 msk else msk);
          ip1 = (if length msk1 = 4 \<and> length ip = 16 \<and> take 12 ip = v4InV6Prefix
                 then drop 12 ip else ip)
      in if length ip1 \<noteq> length msk1 then [] else map2 (AND) ip1 msk1)"

text \<open>\<open>networkNumberAndMask\<close> and \<open>Contains\<close> of \<open>net.IPNet\<close>.\<close>

definition networkNumberAndMask :: "IPNet \<Rightarrow> IP \<times> IPMask" where
  "networkNumberAndMask n =
     (let ip = (if To4 (IP n) \<noteq> [] then To4 (IP n) else IP n);
          m = Mask n
      in if To4 (IP n) = [] \<and> length ip \<noteq> 16 then ([], [])
         else if length m = 4 then (if length ip \<noteq> 4 then ([], []) else (ip, m))
         else if length m = 16 then (if length ip = 4 then (ip, drop 12 m) else (ip, m))
         else ([], []))"

definition IPNet_Contains :: "IPNet \<Rightarrow> IP \<Rightarrow> bool" where
  "IPNet_Contains n ip =
     (let (nn, m) = networkNumberAndMask n;
          ip1 = (if To4 ip \<noteq> [] then To4 ip else ip)
      in length ip1 = length nn \<and> map2 (AND) nn m = map2 (AND) ip1 m)"

text \<open>Printing. \<open>digits\<close> is the library's digit table; \<open>appendDecimal\<close> prints a byte
  in decimal and \<open>appendHex\<close> a 16-bit group in hexadecimal, both without leading zeros.\<close>

definition digits :: string where
  "digits = ''0123456789abcdef''"

definition appendDecimal :: "byte \<Rightarrow> string" where
  "appendDecimal x =
     (let n = unat x in
      (if 100 \<le> n then [digits ! (n div 100)] else []) @
      (if 10 \<le> n then [digits ! (n div 10 mod 10)] else []) @
      [digits ! (n mod 10)])"

definition appendHex :: "nat \<Rightarrow> string" where
  "appendHex x =
     (if 0x1000 \<le> x then [digits ! (x div 0x1000)] else []) @
     (if 0x100 \<le> x then [digits ! (x div 0x100 mod 16)] else []) @
     (if 0x10 \<le> x then [digits ! (x div 0x10 mod 16)] else []) @
     [digits ! (x mod 16)]"

fun joinWith :: "string \<Rightarrow> string list \<Rightarrow> string" where
  "joinWith sep [] = []"
| "joinWith sep [x] = x"
| "joinWith sep (x # y # ys) = x @ sep @ joinWith sep (y # ys)"

definition string4 :: "IP \<Rightarrow> string" where
  "string4 ip = joinWith ''.'' (map appendDecimal ip)"

text \<open>The eight 16-bit groups of a 16-byte address.\<close>

fun v6u16 :: "byte list \<Rightarrow> nat list" where
  "v6u16 (hi # lo # bs) = (256 * unat hi + unat lo) # v6u16 bs"
| "v6u16 _ = []"

text \<open>The zero run that \<open>::\<close> replaces: the library scans the start positions \<open>i\<close>
  in order and keeps a run of at least two zero groups that is longer than the one
  kept so far (\<open>(255, 255)\<close> when there is none).\<close>

definition zeroRun :: "nat list \<Rightarrow> nat \<times> nat" where
  "zeroRun g =
     foldl (\<lambda>(zs, ze) i.
              let j = i + length (takeWhile (\<lambda>x. x = 0) (drop i g))
              in if 2 \<le> j - i \<and> ze - zs < j - i then (i, j) else (zs, ze))
           (255, 255) [0..<8]"

definition string6 :: "IP \<Rightarrow> string" where
  "string6 ip =
     (let g = v6u16 ip; (zs, ze) = zeroRun g
      in if zs = 255 then joinWith '':'' (map appendHex g)
         else joinWith '':'' (map appendHex (take zs g)) @ ''::'' @
              joinWith '':'' (map appendHex (drop ze g)))"

definition hexString :: "byte list \<Rightarrow> string" where
  "hexString b = concat (map (\<lambda>x. [digits ! (unat x div 16), digits ! (unat x mod 16)]) b)"

text \<open>\<open>ip.String()\<close>: dotted decimal for an IPv4 address (also one held in 16 bytes),
  the compressed hexadecimal form for any other 16-byte address.\<close>

definition IP_String :: "IP \<Rightarrow> string" where
  "IP_String ip =
     (if length ip = 0 then ''<nil>''
      else if length ip \<noteq> 4 \<and> length ip \<noteq> 16 then ''?'' @ hexString ip
      else if length (To4 ip) = 4 then string4 (To4 ip)
      else string6 ip)"

text \<open>Parsing. \<open>splitOn\<close> is \<open>strings.Split\<close> for a one-byte separator.\<close>

fun splitOn :: "char \<Rightarrow> string \<Rightarrow> string list" where
  "splitOn sep [] = [[]]"
| "splitOn sep (c # cs) =
     (if c = sep then [] # splitOn sep cs
      else (case splitOn sep cs of f # fs \<Rightarrow> (c # f) # fs | [] \<Rightarrow> [[c]]))"

text \<open>One field of a dotted quad: one to three decimal digits, no leading zero, at most
  255.\<close>

definition ipv4Field :: "string \<Rightarrow> byte option" where
  "ipv4Field f =
     (if f = [] \<or> \<not> list_all isDigit f then None
      else if 1 < length f \<and> hd f = CHR ''0'' then None
      else if 255 < decimal f then None
      else Some (of_nat (decimal f)))"

text \<open>\<open>parseIPv4\<close>: exactly four fields separated by dots.\<close>

definition parseIPv4 :: "string \<Rightarrow> byte list option" where
  "parseIPv4 s =
     (case map ipv4Field (splitOn CHR ''.'' s) of
        [Some a, Some b, Some c, Some d] \<Rightarrow> Some [a, b, c, d]
      | _ \<Rightarrow> None)"

definition isHex :: "char \<Rightarrow> bool" where
  "isHex c = (c \<in> set ''0123456789abcdefABCDEF'')"

definition hexVal :: "char \<Rightarrow> nat" where
  "hexVal c =
     (if isDigit c then of_char c - 48
      else if c \<in> set ''abcdef'' then of_char c - 87
      else of_char c - 55)"

definition hexadecimal :: "string \<Rightarrow> nat" where
  "hexadecimal ds = foldl (\<lambda>n c. 16 * n + hexVal c) 0 ds"

text \<open>The end of \<open>parseIPv6\<close>: the whole text must be used; fewer than 16 bytes need an
  ellipsis, which is filled with zero bytes; 16 bytes allow none.\<close>

definition v6finish :: "byte list \<Rightarrow> nat option \<Rightarrow> string \<Rightarrow> byte list option" where
  "v6finish acc ell s =
     (if s \<noteq> [] then None
      else if length acc < 16 then
        (case ell of
           None \<Rightarrow> None
         | Some e \<Rightarrow> Some (take e acc @ replicate (16 - length acc) 0 @ drop e acc))
      else if ell \<noteq> None then None
      else Some acc)"

text \<open>The loop of \<open>parseIPv6\<close>: \<open>acc\<close> are the bytes read so far, \<open>ell\<close> the position of
  the ellipsis if one was seen, \<open>s\<close> the text left. Each round reads a group of one to
  four hexadecimal digits; a group followed by a dot starts an IPv4 address that ends
  the text.\<close>

function v6loop :: "byte list \<Rightarrow> nat option \<Rightarrow> string \<Rightarrow> byte list option" where
  "v6loop acc ell s =
     (if 16 \<le> length acc then v6finish acc ell s
      else
        (let h = takeWhile isHex s; rest = drop (length h) s in
         if 4 < length h \<or> h = [] then None
         else if rest \<noteq> [] \<and> hd rest = CHR ''.'' then
           (if ell = None \<and> length acc \<noteq> 12 then None
            else if 16 < length acc + 4 then None
            else (case parseIPv4 s of
                    None \<Rightarrow> None
                  | Some v4 \<Rightarrow> v6finish (acc @ v4) ell []))
         else
           (let acc' = acc @ [of_nat (hexadecimal h div 256), of_nat (hexadecimal h)] in
            if rest = [] then v6finish acc' ell []
            else if hd rest \<noteq> CHR '':'' then None
            else if length rest = 1 then None
            else if hd (tl rest) = CHR '':'' then
              (if ell \<noteq> None then None
               else if tl (tl rest) = [] then v6finish acc' (Some (length acc')) []
               else v6loop acc' (Some (length acc')) (tl (tl rest)))
            else v6loop acc' ell (tl rest))))"
  by pat_completeness auto
termination
  by (relation "measure (\<lambda>(acc, ell, s). 16 - length acc)") auto

declare v6loop.simps [simp del]

text \<open>\<open>parseIPv6\<close>. A zone (\<open>%\<close>) is refused: \<open>net.ParseIP\<close> and \<open>net.ParseCIDR\<close>
  accept no address with a zone.\<close>

definition parseIPv6 :: "string \<Rightarrow> byte list option" where
  "parseIPv6 s =
     (if CHR ''%'' \<in> set s then None
      else if take 2 s = ''::'' then
        (if drop 2 s = [] then Some (replicate 16 0) else v6loop [] (Some 0) (drop 2 s))
      else v6loop [] None s)"

text \<open>\<open>netip.ParseAddr\<close> without zones: the first dot, colon or percent sign decides;
  the result has 4 bytes for an IPv4 text and 16 bytes for an IPv6 text.\<close>

definition ParseAddr :: "string \<Rightarrow> byte list option" where
  "ParseAddr s =
     (case find (\<lambda>c. c = CHR ''.'' \<or> c = CHR '':'' \<or> c = CHR ''%'') s of
        None \<Rightarrow> None
      | Some c \<Rightarrow>
          if c = CHR ''.'' then parseIPv4 s
          else if c = CHR '':'' then parseIPv6 s
          else None)"

definition As16 :: "byte list \<Rightarrow> IP" where
  "As16 a = (if length a = 4 then v4InV6Prefix @ a else a)"

text \<open>\<open>net.ParseIP\<close>: the address in 16 bytes, \<open>None\<close> for \<open>nil\<close>.\<close>

definition ParseIP :: "string \<Rightarrow> IP option" where
  "ParseIP s = map_option As16 (ParseAddr s)"

text \<open>\<open>net.ParseCIDR\<close>: the text before the first slash is the address, the text after
  it the prefix length, all decimal digits and at most the bit length of the address.
  It returns the address in 16 bytes and the network with its mask.\<close>

definition ParseCIDR :: "string \<Rightarrow> (IP \<times> IPNet) option" where
  "ParseCIDR s =
     (if CHR ''/'' \<notin> set s then None
      else
        (let addr = takeWhile (\<lambda>c. c \<noteq> CHR ''/'') s;
             maskText = tl (dropWhile (\<lambda>c. c \<noteq> CHR ''/'') s)
         in case ParseAddr addr of
              None \<Rightarrow> None
            | Some a \<Rightarrow>
                (let bitLen = (if length a = 4 then 32 else 128) in
                 if maskText = [] \<or> \<not> list_all isDigit maskText \<or> bitLen < decimal maskText then None
                 else
                   (let m = CIDRMask (decimal maskText) bitLen; addr16 = As16 a
                    in Some (addr16, \<lparr>IP = IP_Mask addr16 m, Mask = m\<rparr>)))))"

section \<open>RBD image metadata and the image-backed DEK store (package rbd)\<close>

subsection \<open>The image and its metadata store\<close>

text \<open>
  The metadata calls of an image are recorded in \<open>accesses\<close> (oldest first), so that
  "no metadata was read or written" is a statement about the image returned.
\<close>

datatype meta_op = OpGet string | OpSet string string

text \<open>Of \<open>rbdImage\<close> the fields the modelled functions use: \<open>VolID\<close>, the image's
  key-value metadata, and whether a block-level \<open>VolumeEncryption\<close> is configured
  (\<open>blockEncryption != nil\<close>). \<open>ioError\<close> is the error the cluster connection answers
  every metadata call with, if it is broken.\<close>

record rbdImage =
  VolID :: string
  metadata :: "string \<rightharpoonup> string"
  ioError :: "string option"
  accesses :: "meta_op list"
  blockEncryption :: bool

definition encryptionMetaKey :: string where
  "encryptionMetaKey = ''rbd.csi.ceph.com/encrypted''"

definition oldEncryptionMetaKey :: string where
  "oldEncryptionMetaKey = ''.rbd.csi.ceph.com/encrypted''"

definition metadataDEK :: string where
  "metadataDEK = ''rbd.csi.ceph.com/dek''"

definition oldMetadataDEK :: string where
  "oldMetadataDEK = ''.rbd.csi.ceph.com/dek''"

text \<open>Modelled from the spec: \<open>GetMetadata\<close> and \<open>SetMetadata\<close> of \<open>rbdImage\<close> are
  not among the sources. The spec stores the state "as volume metadata (one key-value
  pair)"; a read of a key that is not set answers \<open>librbd.ErrNotFound\<close>, the error
  \<open>checkRbdImageEncrypted\<close> tests for.\<close>

definition GetMetadata :: "rbdImage \<Rightarrow> string \<Rightarrow> (go_error + string) \<times> rbdImage" where
  "GetMetadata ri k =
     (let ri' = ri\<lparr>accesses := accesses ri @ [OpGet k]\<rparr> in
      case ioError ri of
        Some e \<Rightarrow> (Inl (ErrMsg e), ri')
      | None \<Rightarrow>
          (case metadata ri k of
             None \<Rightarrow> (Inl ErrNotFound, ri')
           | Some v \<Rightarrow> (Inr v, ri')))"

definition SetMetadata :: "rbdImage \<Rightarrow> string \<Rightarrow> string \<Rightarrow> go_error option \<times> rbdImage" where
  "SetMetadata ri k v =
     (let ri' = ri\<lparr>accesses := accesses ri @ [OpSet k v]\<rparr> in
      case ioError ri of
        Some e \<Rightarrow> (Some (ErrMsg e), ri')
      | None \<Rightarrow> (None, ri'\<lparr>metadata := (metadata ri)(k \<mapsto> v)\<rparr>))"

text \<open>Modelled from the spec: \<open>MigrateMetadata\<close> is not among the sources. The spec's
  \<open>CheckState\<close> "reads the state metadata key, falling back to a legacy key name if
  present (one-time metadata migration semantics: if found under the legacy name, the
  value is copied to the canonical name in the same call)"; when the key is set under
  neither name the read answers \<open>librbd.ErrNotFound\<close>. The default value the source
  passes is not used by the spec's words and is kept as an argument only.\<close>

definition MigrateMetadata ::
  "rbdImage \<Rightarrow> string \<Rightarrow> string \<Rightarrow> string \<Rightarrow> (go_error + string) \<times> rbdImage" where
  "MigrateMetadata ri oldKey newKey defaultValue =
     (case GetMetadata ri newKey of
        (Inr v, ri1) \<Rightarrow> (Inr v, ri1)
      | (Inl (ErrMsg e), ri1) \<Rightarrow> (Inl (ErrMsg e), ri1)
      | (Inl ErrNotFound, ri1) \<Rightarrow>
          (case GetMetadata ri1 oldKey of
             (Inl e, ri2) \<Rightarrow> (Inl e, ri2)
           | (Inr v, ri2) \<Rightarrow>
               (case SetMetadata ri2 newKey v of
                  (Some e, ri3) \<Rightarrow> (Inl e, ri3)
                | (None, ri3) \<Rightarrow> (Inr v, ri3))))"

subsection \<open>StoreDEK, FetchDEK, RemoveDEK\<close>

text \<open>The messages keep the constant text of the source's format strings.\<close>

definition StoreDEK :: "rbdImage \<Rightarrow> string \<Rightarrow> string \<Rightarrow> go_error option \<times> rbdImage" where
  "StoreDEK ri volumeID dek =
     (if VolID ri = '''' then (Some (ErrMsg ''BUG: image does not have VolID set''), ri)
      else if VolID ri \<noteq> volumeID then
        (Some (ErrMsg (''volume '' @ VolID ri @ '' can not store DEK for '' @ volumeID)), ri)
      else SetMetadata ri metadataDEK dek)"

definition FetchDEK :: "rbdImage \<Rightarrow> string \<Rightarrow> (go_error + string) \<times> rbdImage" where
  "FetchDEK ri volumeID =
     (if VolID ri = '''' then (Inl (ErrMsg ''BUG: image does not have VolID set''), ri)
      else if VolID ri \<noteq> volumeID then
        (Inl (ErrMsg (''volume '' @ VolID ri @ '' can not fetch DEK for '' @ volumeID)), ri)
      else MigrateMetadata ri oldMetadataDEK metadataDEK '''')"

definition RemoveDEK :: "rbdImage \<Rightarrow> string \<Rightarrow> go_error option \<times> rbdImage" where
  "RemoveDEK ri volumeID =
     (if VolID ri = '''' then (Some (ErrMsg ''BUG: image does not have VolID set''), ri)
      else if VolID ri \<noteq> volumeID then
        (Some (ErrMsg (''volume '' @ VolID ri @ '' can not remove DEK for '' @ volumeID)), ri)
      else (None, ri))"

subsection \<open>The encryption state of an image\<close>

text \<open>\<open>rbdEncryptionState\<close> is a string type in the source; its three named values:\<close>

type_synonym rbdEncryptionState = string

definition rbdImageEncryptionUnknown :: rbdEncryptionState where
  "rbdImageEncryptionUnknown = []"

definition rbdImageEncrypted :: rbdEncryptionState where
  "rbdImageEncrypted = ''encrypted''"


text \<open>\<open>checkRbdImageEncrypted\<close> returns the pair \<open>(state, error)\<close> of the source and the
  image after the metadata calls.\<close>

definition checkRbdImageEncrypted ::
  "rbdImage \<Rightarrow> (rbdEncryptionState \<times> go_error option) \<times> rbdImage" where
  "checkRbdImageEncrypted ri =
     (case MigrateMetadata ri oldEncryptionMetaKey encryptionMetaKey rbdImageEncryptionUnknown of
        (Inl ErrNotFound, ri') \<Rightarrow> ((rbdImageEncryptionUnknown, None), ri')
      | (Inl (ErrMsg e), ri') \<Rightarrow> ((rbdImageEncryptionUnknown, Some (ErrMsg e)), ri')
      | (Inr v, ri') \<Rightarrow> ((TrimSpace v, None), ri'))"

subsection \<open>Key rotation\<close>

definition luksSlot0 :: string where
  "luksSlot0 = ''0''"

definition luksSlot1 :: string where
  "luksSlot1 = ''1''"

definition encryptionPassphraseSize :: nat where
  "encryptionPassphraseSize = 20"

definition GetEncryptionPassphraseSize :: nat where
  "GetEncryptionPassphraseSize = encryptionPassphraseSize"

definition isBlockEncrypted :: "rbdImage \<Rightarrow> bool" where
  "isBlockEncrypted ri = blockEncryption ri"

text \<open>Modelled from the spec: the lock (\<open>lock.NewLock\<close>, \<open>LockExclusive\<close>, \<open>Unlock\<close>), the
  device discovery \<open>waitForPath\<close>, \<open>openIoctx\<close>, the key-management client
  (\<open>GetCryptoPassphrase\<close>, \<open>GetNewCryptoPassphrase\<close>, \<open>StoreCryptoPassphrase\<close>) and the
  LUKS wrapper (\<open>AddKey\<close>, \<open>RemoveKey\<close>) are not among the sources. The spec names them
  ("\<open>AddKey(devicePath, authPassphrase, newPassphrase, slot)\<close>,
  \<open>RemoveKey(devicePath, authPassphrase, slot)\<close>", \<open>StoreSecret\<close>, \<open>FetchSecret\<close>, a
  distributed lock "acquired before rotation" and "released unconditionally") and its
  data model holds the state they act on: "the KMS \<open>\<dots>\<close> owns the durable copy; the LUKS
  header owns up to two concurrently valid copies (slot 0 = current, slot 1 = transient
  backup during rotation)".

  The state of these systems is \<open>world\<close>: the passphrase the KMS holds for a volume id,
  the key slots of the LUKS header of every device (slot and passphrase, at most one
  entry for a slot), whether the lock of the volume is held, and the calls made (oldest
  first). A passphrase opens a device when a key slot of its header holds it;
  \<open>setSlot\<close> writes a passphrase into a slot, \<open>clearSlot\<close> empties a slot.

  What the systems answer in one run is \<open>outcomes\<close>: for every call the error it fails
  with, if it fails for a reason outside the state (time-out, connection), the device
  path found, and the passphrase generated. A call that fails changes nothing. A key
  operation also fails when its authentication passphrase does not open the device,
  \<open>LockExclusive\<close> when the lock is held, \<open>GetCryptoPassphrase\<close> when the KMS holds no
  passphrase for the volume.\<close>

datatype call =
    CallOpenIoctx
  | CallLockExclusive
  | CallUnlock
  | CallWaitForPath
  | CallGetCryptoPassphrase
  | CallGetNewCryptoPassphrase
  | CallStoreCryptoPassphrase
  | CallAddKey string
  | CallRemoveKey string

record world =
  kmsPassphrase :: "string \<rightharpoonup> string"
  luksSlots :: "string \<Rightarrow> (string \<times> string) list"
  lockHeld :: bool
  calls :: "call list"

record outcomes =
  openIoctxErr :: "string option"
  lockErr :: "string option"
  waitForPathResult :: "string option"
  getPassphraseErr :: "string option"
  newPassphraseResult :: "go_error + string"
  storePassphraseErr :: "string option"
  addKeyErr :: "string \<Rightarrow> string option"
  removeKeyErr :: "string \<Rightarrow> string option"

definition called :: "call \<Rightarrow> world \<Rightarrow> world" where
  "called c w = w\<lparr>calls := calls w @ [c]\<rparr>"

definition opens :: "(string \<times> string) list \<Rightarrow> string \<Rightarrow> bool" where
  "opens header passphrase = (passphrase \<in> set (map snd header))"

definition clearSlot :: "string \<Rightarrow> (string \<times> string) list \<Rightarrow> (string \<times> string) list" where
  "clearSlot slot header = filter (\<lambda>(s, p). s \<noteq> slot) header"

definition setSlot ::
  "string \<Rightarrow> string \<Rightarrow> (string \<times> string) list \<Rightarrow> (string \<times> string) list" where
  "setSlot slot passphrase header = (slot, passphrase) # clearSlot slot header"

definition openIoctx :: "outcomes \<Rightarrow> world \<Rightarrow> go_error option \<times> world" where
  "openIoctx env w = (map_option ErrMsg (openIoctxErr env), called CallOpenIoctx w)"

definition LockExclusive :: "outcomes \<Rightarrow> world \<Rightarrow> go_error option \<times> world" where
  "LockExclusive env w =
     (case lockErr env of
        Some e \<Rightarrow> (Some (ErrMsg e), called CallLockExclusive w)
      | None \<Rightarrow>
          if lockHeld w then (Some (ErrMsg ''lock is held''), called CallLockExclusive w)
          else (None, (called CallLockExclusive w)\<lparr>lockHeld := True\<rparr>))"

definition Unlock :: "world \<Rightarrow> world" where
  "Unlock w = (called CallUnlock w)\<lparr>lockHeld := False\<rparr>"

definition waitForPath :: "outcomes \<Rightarrow> world \<Rightarrow> string option \<times> world" where
  "waitForPath env w = (waitForPathResult env, called CallWaitForPath w)"

definition GetCryptoPassphrase ::
  "outcomes \<Rightarrow> world \<Rightarrow> string \<Rightarrow> (go_error + string) \<times> world" where
  "GetCryptoPassphrase env w volumeID =
     (case getPassphraseErr env of
        Some e \<Rightarrow> (Inl (ErrMsg e), called CallGetCryptoPassphrase w)
      | None \<Rightarrow>
          (case kmsPassphrase w volumeID of
             None \<Rightarrow> (Inl (ErrMsg ''no passphrase''), called CallGetCryptoPassphrase w)
           | Some passphrase \<Rightarrow> (Inr passphrase, called CallGetCryptoPassphrase w)))"

definition GetNewCryptoPassphrase ::
  "outcomes \<Rightarrow> world \<Rightarrow> nat \<Rightarrow> (go_error + string) \<times> world" where
  "GetNewCryptoPassphrase env w n = (newPassphraseResult env, called CallGetNewCryptoPassphrase w)"

definition StoreCryptoPassphrase ::
  "outcomes \<Rightarrow> world \<Rightarrow> string \<Rightarrow> string \<Rightarrow> go_error option \<times> world" where
  "StoreCryptoPassphrase env w volumeID passphrase =
     (case storePassphraseErr env of
        Some e \<Rightarrow> (Some (ErrMsg e), called CallStoreCryptoPassphrase w)
      | None \<Rightarrow>
          (None, (called CallStoreCryptoPassphrase w)
                   \<lparr>kmsPassphrase := (kmsPassphrase w)(volumeID \<mapsto> passphrase)\<rparr>))"

definition AddKey ::
  "outcomes \<Rightarrow> world \<Rightarrow> string \<Rightarrow> string \<Rightarrow> string \<Rightarrow> string \<Rightarrow> go_error option \<times> world" where
  "AddKey env w devicePath passphrase newPassphrase slot =
     (case addKeyErr env slot of
        Some e \<Rightarrow> (Some (ErrMsg e), called (CallAddKey slot) w)
      | None \<Rightarrow>
          if \<not> opens (luksSlots w devicePath) passphrase then
            (Some (ErrMsg ''no key available with this passphrase''), called (CallAddKey slot) w)
          else
            (None, (called (CallAddKey slot) w)
                     \<lparr>luksSlots := (luksSlots w)
                        (devicePath := setSlot slot newPassphrase (luksSlots w devicePath))\<rparr>))"

definition RemoveKey ::
  "outcomes \<Rightarrow> world \<Rightarrow> string \<Rightarrow> string \<Rightarrow> string \<Rightarrow> go_error option \<times> world" where
  "RemoveKey env w devicePath passphrase slot =
     (case removeKeyErr env slot of
        Some e \<Rightarrow> (Some (ErrMsg e), called (CallRemoveKey slot) w)
      | None \<Rightarrow>
          if \<not> opens (luksSlots w devicePath) passphrase then
            (Some (ErrMsg ''no key available with this passphrase''), called (CallRemoveKey slot) w)
          else
            (None, (called (CallRemoveKey slot) w)
                     \<lparr>luksSlots := (luksSlots w)
                        (devicePath := clearSlot slot (luksSlots w devicePath))\<rparr>))"

text \<open>\<open>RotateEncryptionKey_locked\<close> is the part of \<open>RotateEncryptionKey\<close> after
  \<open>defer lck.Unlock(ctx)\<close>; the deferred call runs when it returns, with an error or
  without. The volume \<open>rv\<close> is the image (of \<open>rbdVolume\<close> only the fields of the \<open>rbdImage\<close>
  in it are used); in the messages \<open>%q\<close> of the volume is its \<open>VolID\<close>, and \<open>%w\<close> of the \<open>nil\<close>
  error, when no device path is found, is \<open>%!w(<nil>)\<close>.\<close>

definition RotateEncryptionKey_locked ::
  "outcomes \<Rightarrow> rbdImage \<Rightarrow> world \<Rightarrow> go_error option \<times> world" where
  "RotateEncryptionKey_locked env rv w =
     (case waitForPath env w of
        (None, w1) \<Rightarrow>
          (Some (ErrMsg (''failed to get the device path for '' @ quote (VolID rv)
                          @ '': %!w(<nil>)'')), w1)
      | (Some devicePath, w1) \<Rightarrow>
     (case GetCryptoPassphrase env w1 (VolID rv) of
        (Inl err, w2) \<Rightarrow>
          (Some (ErrMsg (''failed to fetch the current passphrase for '' @ quote (VolID rv)
                          @ '': '' @ errorText err)), w2)
      | (Inr oldPassphrase, w2) \<Rightarrow>
     (case AddKey env w2 devicePath oldPassphrase oldPassphrase luksSlot1 of
        (Some err, w3) \<Rightarrow>
          (Some (ErrMsg (''failed to add curr key to luksSlot1: '' @ errorText err)), w3)
      | (None, w3) \<Rightarrow>
     (case GetNewCryptoPassphrase env w3 GetEncryptionPassphraseSize of
        (Inl err, w4) \<Rightarrow>
          (Some (ErrMsg (''failed to generate a new passphrase: '' @ errorText err)), w4)
      | (Inr newPassphrase, w4) \<Rightarrow>
     (case AddKey env w4 devicePath oldPassphrase newPassphrase luksSlot0 of
        (Some err, w5) \<Rightarrow>
          (Some (ErrMsg (''failed to add the new key to luksSlot0: '' @ errorText err)), w5)
      | (None, w5) \<Rightarrow>
     (case StoreCryptoPassphrase env w5 (VolID rv) newPassphrase of
        (Some err, w6) \<Rightarrow>
          (Some (ErrMsg (''failed to update the new key into the KMS: '' @ errorText err)), w6)
      | (None, w6) \<Rightarrow>
     (case RemoveKey env w6 devicePath newPassphrase luksSlot1 of
        (Some err, w7) \<Rightarrow>
          (Some (ErrMsg (''failed to remove the backup key from luksSlot1: ''
                          @ errorText err)), w7)
      | (None, w7) \<Rightarrow> (None, w7))))))))"

definition RotateEncryptionKey ::
  "outcomes \<Rightarrow> rbdImage \<Rightarrow> world \<Rightarrow> go_error option \<times> rbdImage \<times> world" where
  "RotateEncryptionKey env rv w =
     (if \<not> isBlockEncrypted rv then
        (Some (ErrMsg ''key rotation unsupported for non block encrypted device''), rv, w)
      else
        (case checkRbdImageEncrypted rv of
           ((currState, Some err), rv') \<Rightarrow>
             (Some (ErrMsg (''failed to check encryption state: '' @ errorText err)), rv', w)
         | ((currState, None), rv') \<Rightarrow>
             if currState \<noteq> rbdImageEncrypted then
               (Some (ErrMsg ''key rotation not supported for unencrypted device''), rv', w)
             else
               (case openIoctx env w of
                  (Some err, w1) \<Rightarrow>
                    (Some (ErrMsg (''failed to open ioctx, err: '' @ errorText err)), rv', w1)
                | (None, w1) \<Rightarrow>
                    (case LockExclusive env w1 of
                       (Some err, w2) \<Rightarrow> (Some err, rv', w2)
                     | (None, w2) \<Rightarrow>
                         (case RotateEncryptionKey_locked env rv' w2 of
                            (r, w3) \<Rightarrow> (r, rv', Unlock w3))))))"

section \<open>Fencing and session eviction (package networkfence)\<close>

subsection \<open>Session descriptors\<close>

record activeClient =
  Inst :: string

definition fetchID :: "activeClient \<Rightarrow> go_error + int" where
  "fetchID ac =
     (case Fields (Inst ac) of
        p # _ \<Rightarrow>
          (case Atoi (TrimPrefix p ''client.'') of
             None \<Rightarrow> Inl (ErrMsg ''failed to convert client ID to int'')
           | Some clientID \<Rightarrow> Inr clientID)
      | [] \<Rightarrow> Inl (ErrMsg (''failed to extract client ID, incorrect format: '' @ Inst ac)))"

subsection \<open>ParseClientIP\<close>

text \<open>
  The regular expression of \<open>ParseClientIP\<close> is
  \<^verbatim>\<open>(?:v[0-9]+:)?([0-9a-fA-F]{1,4}(:[0-9a-fA-F]{1,4}){7}|(?:\d+\.){3}\d+)\<close>
  and \<open>FindStringSubmatch\<close> returns the leftmost match, preferring at one position
  what a backtracking matcher finds first. The matchers below return the text of
  capture group 1.

  \<open>matchV6 n s\<close> matches a group of one to four hexadecimal digits followed by \<open>n\<close>
  more groups, each after a colon. A group that a colon must follow is the whole run of
  hexadecimal digits (a shorter one is followed by a digit, not by a colon), so it
  fails on a run longer than four; the last group is greedy and takes up to four digits.
  \<open>matchV4 n s\<close> does the same for runs of decimal digits of any length separated by
  dots.
\<close>

fun matchV6 :: "nat \<Rightarrow> string \<Rightarrow> string option" where
  "matchV6 0 s =
     (let h = takeWhile isHex s in if h = [] then None else Some (take 4 h))"
| "matchV6 (Suc n) s =
     (let h = takeWhile isHex s in
      if h = [] \<or> 4 < length h then None
      else
        (case drop (length h) s of
           [] \<Rightarrow> None
         | c # rest \<Rightarrow>
             if c = CHR '':'' then map_option (\<lambda>m. h @ CHR '':'' # m) (matchV6 n rest)
             else None))"

fun matchV4 :: "nat \<Rightarrow> string \<Rightarrow> string option" where
  "matchV4 0 s =
     (let d = takeWhile isDigit s in if d = [] then None else Some d)"
| "matchV4 (Suc n) s =
     (let d = takeWhile isDigit s in
      if d = [] then None
      else
        (case drop (length d) s of
           [] \<Rightarrow> None
         | c # rest \<Rightarrow>
             if c = CHR ''.'' then map_option (\<lambda>m. d @ CHR ''.'' # m) (matchV4 n rest)
             else None))"

text \<open>Capture group 1 at the start of \<open>s\<close>: the IPv6 alternative first.\<close>

definition matchGroup :: "string \<Rightarrow> string option" where
  "matchGroup s = (case matchV6 7 s of Some m \<Rightarrow> Some m | None \<Rightarrow> matchV4 3 s)"

text \<open>A match starting at the start of \<open>s\<close>. The optional prefix \<open>v[0-9]+:\<close> is tried
  first; a text starting with \<open>v\<close> cannot match without it, as \<open>v\<close> starts no group.\<close>

definition matchAt :: "string \<Rightarrow> string option" where
  "matchAt s =
     (case s of
        [] \<Rightarrow> None
      | c # cs \<Rightarrow>
          if c = CHR ''v'' then
            (let d = takeWhile isDigit cs in
             if d = [] then None
             else (case drop (length d) cs of
                     [] \<Rightarrow> None
                   | c' # rest \<Rightarrow> if c' = CHR '':'' then matchGroup rest else None))
          else matchGroup s)"

text \<open>\<open>ipMatches[1]\<close> of \<open>re.FindStringSubmatch(addr)\<close>; \<open>None\<close> when there is no
  match.\<close>

fun FindStringSubmatch1 :: "string \<Rightarrow> string option" where
  "FindStringSubmatch1 [] = None"
| "FindStringSubmatch1 (c # cs) =
     (case matchAt (c # cs) of Some m \<Rightarrow> Some m | None \<Rightarrow> FindStringSubmatch1 cs)"

definition ParseClientIP :: "string \<Rightarrow> go_error + string" where
  "ParseClientIP addr =
     (case FindStringSubmatch1 addr of
        Some m \<Rightarrow>
          (case ParseIP m of
             Some ip \<Rightarrow> Inr (IP_String ip)
           | None \<Rightarrow> Inl (ErrMsg (''failed to extract IP address, incorrect format: '' @ addr)))
      | None \<Rightarrow> Inl (ErrMsg (''failed to extract IP address, incorrect format: '' @ addr)))"

definition fetchIP :: "activeClient \<Rightarrow> go_error + string" where
  "fetchIP ac = ParseClientIP (Inst ac)"

subsection \<open>Range membership\<close>

definition isIPInCIDR :: "string \<Rightarrow> string \<Rightarrow> bool" where
  "isIPInCIDR ip cidr =
     (case ParseCIDR cidr of
        None \<Rightarrow> False
      | Some (_, ipCidr) \<Rightarrow>
          (case ParseIP ip of
             None \<Rightarrow> False
           | Some ipAddress \<Rightarrow> IPNet_Contains ipCidr ipAddress))"

subsection \<open>The address-range expander\<close>

text \<open>\<open>incIP\<close> changes the slice in place; the model returns the new bytes. The first
  argument of \<open>incIP_loop\<close> is \<open>j + 1\<close> for the loop index \<open>j\<close>, so that \<open>0\<close> is the
  end \<open>j < 0\<close> of the loop.\<close>

fun incIP_loop :: "nat \<Rightarrow> IP \<Rightarrow> IP" where
  "incIP_loop 0 ip = ip"
| "incIP_loop (Suc j) ip =
     (let ip' = ip[j := ip ! j + 1] in
      if 0 < ip' ! j then ip' else incIP_loop j ip')"

definition incIP :: "IP \<Rightarrow> IP" where
  "incIP ip = incIP_loop (length ip) ip"

text \<open>The loop of \<open>getIPRange\<close> may run forever: \<open>None\<close> is "does not return".\<close>

partial_function (option) getIPRange_loop :: "IPNet \<Rightarrow> IP \<Rightarrow> string list \<Rightarrow> string list option"
where
  "getIPRange_loop ipnet ip hosts =
     (if IPNet_Contains ipnet ip then getIPRange_loop ipnet (incIP ip) (hosts @ [IP_String ip])
      else Some hosts)"

declare getIPRange_loop.simps [code]

definition getIPRange :: "string \<Rightarrow> (go_error + string list) option" where
  "getIPRange cidr =
     (case ParseCIDR cidr of
        None \<Rightarrow> Some (Inl (ErrMsg (''invalid CIDR address: '' @ cidr)))
      | Some (netIP, ipnet) \<Rightarrow>
          map_option Inr (getIPRange_loop ipnet (IP_Mask netIP (Mask ipnet)) []))"

subsection \<open>The cluster command gateway\<close>

text \<open>Modelled from the spec: \<open>util.ExecCommand\<close> and \<open>util.ExecCommandWithTimeout\<close>
  are not among the sources. The spec's gateway is
  "\<open>Execute(ctx, timeout, program, args...)\<close> \<open>\<rightarrow>\<close> \<open>(stdout, stderr, error)\<close>"; it is an
  oracle on commands, a function from the program and its arguments to the three
  results (\<open>None\<close> for a \<open>nil\<close> error, else the error's text). Every call is recorded in
  a trace (oldest first), so that "no further command is issued" is a statement about
  the trace returned.\<close>

type_synonym command = "string list"
type_synonym gateway = "command \<Rightarrow> string \<times> string \<times> string option"
type_synonym trace = "command list"

definition ExecCommand ::
  "gateway \<Rightarrow> string \<Rightarrow> string list \<Rightarrow> trace \<Rightarrow> (string \<times> string \<times> string option) \<times> trace" where
  "ExecCommand gw program args tr = (gw (program # args), tr @ [program # args])"

text \<open>The verb \<open>%d\<close> of \<open>fmt\<close> on an \<open>int\<close>.\<close>

function natDec :: "nat \<Rightarrow> string" where
  "natDec n = (if n < 10 then [digits ! n] else natDec (n div 10) @ [digits ! (n mod 10)])"
  by pat_completeness auto
termination
  by (relation "measure id") auto

declare natDec.simps [simp del]

definition itoa :: "int \<Rightarrow> string" where
  "itoa i = (if i < 0 then CHR ''-'' # natDec (nat (- i)) else natDec (nat i))"

subsection \<open>The blocklist controller\<close>

record Credentials =
  ID :: string
  KeyFile :: string

record NetworkFence =
  Cidr :: "string list"
  Monitors :: string
  cr :: Credentials

definition blocklistTime :: string where
  "blocklistTime = ''157784760''"

definition invalidCommandStr :: string where
  "invalidCommandStr = ''invalid command''"

definition mdsRank :: int where
  "mdsRank = 0"

text \<open>The arguments \<open>arg\<close> that every command ends with.\<close>

definition credArgs :: "NetworkFence \<Rightarrow> string list" where
  "credArgs nf = [''--id'', ID (cr nf), ''--keyfile='' @ KeyFile (cr nf), ''-m'', Monitors nf]"

text \<open>The command line \<open>cmd\<close> that \<open>addCephBlocklist\<close> builds.\<close>

definition blocklistAddCmd :: "NetworkFence \<Rightarrow> string \<Rightarrow> bool \<Rightarrow> string list" where
  "blocklistAddCmd nf ip useRange =
     [''osd'', ''blocklist''] @ (if useRange then [''range''] else [])
       @ [''add'', ip, blocklistTime] @ credArgs nf"

definition addCephBlocklist ::
  "gateway \<Rightarrow> NetworkFence \<Rightarrow> string \<Rightarrow> bool \<Rightarrow> trace \<Rightarrow> go_error option \<times> trace" where
  "addCephBlocklist gw nf ip useRange tr =
     (case ExecCommand gw ''ceph'' (blocklistAddCmd nf ip useRange) tr of
        ((_, stdErr, Some err), tr') \<Rightarrow>
          (Some (ErrMsg (''failed to blocklist IP '' @ quote ip @ '': '' @ err
                          @ '' stderr: '' @ quote stdErr)), tr')
      | ((_, _, None), tr') \<Rightarrow> (None, tr'))"

text \<open>The inner loop of \<open>AddNetworkFence\<close> over the hosts of one range.\<close>

fun blocklistHosts ::
  "gateway \<Rightarrow> NetworkFence \<Rightarrow> string list \<Rightarrow> trace \<Rightarrow> go_error option \<times> trace" where
  "blocklistHosts gw nf [] tr = (None, tr)"
| "blocklistHosts gw nf (host # hosts) tr =
     (case addCephBlocklist gw nf host False tr of
        (Some err, tr') \<Rightarrow> (Some err, tr')
      | (None, tr') \<Rightarrow> blocklistHosts gw nf hosts tr')"

text \<open>How the block \<open>if hasBlocklistRangeSupport { ... }\<close> is left: by \<open>continue\<close>, by
  \<open>return\<close>, or by falling through to the expansion of the range.\<close>

datatype rangeAttempt = Continue | Return go_error | FallThrough

text \<open>The loop of \<open>AddNetworkFence\<close> over the ranges, with the variable
  \<open>hasBlocklistRangeSupport\<close> as an argument. The result is \<open>None\<close> when the expansion of
  a range does not return.\<close>

fun AddNetworkFence_loop ::
  "gateway \<Rightarrow> NetworkFence \<Rightarrow> bool \<Rightarrow> string list \<Rightarrow> trace \<Rightarrow> (go_error option \<times> trace) option"
where
  "AddNetworkFence_loop gw nf hasBlocklistRangeSupport [] tr = Some (None, tr)"
| "AddNetworkFence_loop gw nf hasBlocklistRangeSupport (cidr # cidrs) tr =
     (let (attempt, tr1) =
            (if hasBlocklistRangeSupport then
               (case addCephBlocklist gw nf cidr True tr of
                  (None, tr') \<Rightarrow> (Continue, tr')
                | (Some err, tr') \<Rightarrow>
                    if \<not> Contains (errorText err) invalidCommandStr then
                      (Return (ErrMsg (''failed to add blocklist range '' @ quote cidr @ '': ''
                                        @ errorText err)), tr')
                    else (FallThrough, tr'))
             else (FallThrough, tr))
      in case attempt of
           Continue \<Rightarrow> AddNetworkFence_loop gw nf hasBlocklistRangeSupport cidrs tr1
         | Return err \<Rightarrow> Some (Some err, tr1)
         | FallThrough \<Rightarrow>
             (case getIPRange cidr of
                None \<Rightarrow> None
              | Some (Inl err) \<Rightarrow>
                  Some (Some (ErrMsg (''failed to convert CIDR block '' @ cidr
                                       @ '' to corresponding IP range: '' @ errorText err)), tr1)
              | Some (Inr hosts) \<Rightarrow>
                  (case blocklistHosts gw nf hosts tr1 of
                     (Some err, tr2) \<Rightarrow> Some (Some err, tr2)
                   | (None, tr2) \<Rightarrow> AddNetworkFence_loop gw nf False cidrs tr2)))"

definition AddNetworkFence ::
  "gateway \<Rightarrow> NetworkFence \<Rightarrow> trace \<Rightarrow> (go_error option \<times> trace) option" where
  "AddNetworkFence gw nf tr = AddNetworkFence_loop gw nf True (Cidr nf) tr"

subsection \<open>The session eviction controller\<close>

text \<open>\<open>json.Unmarshal\<close> into \<open>[]activeClient\<close> is a parameter \<open>unmarshal\<close> of
  \<open>listActiveClients\<close>: \<open>None\<close> when the text cannot be decoded (the text of the
  decoder's error is left out of the message). \<open>listCmd\<close> is the
  command line \<open>cmd\<close> of \<open>listActiveClients\<close>, \<open>evictCmd\<close> that of
  \<open>evictCephFSClient\<close>.\<close>

definition listCmd :: "NetworkFence \<Rightarrow> string list" where
  "listCmd nf = [''tell'', ''mds.'' @ itoa mdsRank, ''client'', ''ls''] @ credArgs nf"

definition listActiveClients ::
  "gateway \<Rightarrow> (string \<Rightarrow> activeClient list option) \<Rightarrow> NetworkFence \<Rightarrow> trace
     \<Rightarrow> (go_error + activeClient list) \<times> trace" where
  "listActiveClients gw unmarshal nf tr =
     (case ExecCommand gw ''ceph'' (listCmd nf) tr of
        ((_, stdErr, Some err), tr') \<Rightarrow>
          (Inl (ErrMsg (''failed to list active clients: '' @ err @ '', stderr: ''
                         @ quote stdErr)), tr')
      | ((stdout, _, None), tr') \<Rightarrow>
          (case unmarshal stdout of
             None \<Rightarrow> (Inl (ErrMsg ''failed to unmarshal JSON''), tr')
           | Some activeClients \<Rightarrow> (Inr activeClients, tr')))"

definition evictCmd :: "NetworkFence \<Rightarrow> int \<Rightarrow> string list" where
  "evictCmd nf clientID =
     [''tell'', ''mds.'' @ itoa mdsRank, ''client'', ''evict'', ''id='' @ itoa clientID]
       @ credArgs nf"

definition evictCephFSClient ::
  "gateway \<Rightarrow> NetworkFence \<Rightarrow> int \<Rightarrow> trace \<Rightarrow> go_error option \<times> trace" where
  "evictCephFSClient gw nf clientID tr =
     (case ExecCommand gw ''ceph'' (evictCmd nf clientID) tr of
        ((_, stdErr, Some err), tr') \<Rightarrow>
          (Some (ErrMsg (''failed to evict client '' @ itoa clientID @ '': '' @ err
                          @ '', stderr: '' @ quote stdErr)), tr')
      | ((_, _, None), tr') \<Rightarrow> (None, tr'))"

text \<open>The inner loop of \<open>AddClientEviction\<close> over the active clients, for one range.
  The state is the map \<open>evictedIPs\<close> (the set of its keys) and the trace.\<close>

fun evictClients ::
  "gateway \<Rightarrow> NetworkFence \<Rightarrow> string \<Rightarrow> activeClient list \<Rightarrow> string set \<times> trace
     \<Rightarrow> go_error option \<times> string set \<times> trace" where
  "evictClients gw nf cidr [] (evictedIPs, tr) = (None, evictedIPs, tr)"
| "evictClients gw nf cidr (client # clients) (evictedIPs, tr) =
     (case fetchIP client of
        Inl err \<Rightarrow>
          (Some (ErrMsg (''error fetching client IP: '' @ errorText err)), evictedIPs, tr)
      | Inr clientIP \<Rightarrow>
          if isIPInCIDR clientIP cidr then
            (case fetchID client of
               Inl err \<Rightarrow>
                 (Some (ErrMsg (''error fetching client ID: '' @ errorText err)), evictedIPs, tr)
             | Inr clientID \<Rightarrow>
                 (case evictCephFSClient gw nf clientID tr of
                    (Some err, tr') \<Rightarrow>
                      (Some (ErrMsg (''error evicting client '' @ itoa clientID @ '': ''
                                      @ errorText err)), evictedIPs, tr')
                  | (None, tr') \<Rightarrow>
                      evictClients gw nf cidr clients (insert clientIP evictedIPs, tr')))
          else evictClients gw nf cidr clients (evictedIPs, tr))"

text \<open>The outer loop over the ranges.\<close>

fun evictCidrs ::
  "gateway \<Rightarrow> NetworkFence \<Rightarrow> string list \<Rightarrow> activeClient list \<Rightarrow> string set \<times> trace
     \<Rightarrow> go_error option \<times> string set \<times> trace" where
  "evictCidrs gw nf [] activeClients st = (None, st)"
| "evictCidrs gw nf (cidr # cidrs) activeClients st =
     (case evictClients gw nf cidr activeClients st of
        (Some err, st') \<Rightarrow> (Some err, st')
      | (None, st') \<Rightarrow> evictCidrs gw nf cidrs activeClients st')"

definition AddClientEviction ::
  "gateway \<Rightarrow> (string \<Rightarrow> activeClient list option) \<Rightarrow> NetworkFence \<Rightarrow> trace
     \<Rightarrow> (go_error option \<times> trace) option" where
  "AddClientEviction gw unmarshal nf tr =
     (case listActiveClients gw unmarshal nf tr of
        (Inl err, tr1) \<Rightarrow> Some (Some err, tr1)
      | (Inr activeClients, tr1) \<Rightarrow>
          (case evictCidrs gw nf (Cidr nf) activeClients ({}, tr1) of
             (Some err, _, tr2) \<Rightarrow> Some (Some err, tr2)
           | (None, _, tr2) \<Rightarrow> AddNetworkFence gw nf tr2))"

subsection \<open>Scanning the blocklist\<close>







subsection \<open>Vocabulary for stating the expander's result\<close>

text \<open>The number a byte vector denotes, most significant byte first, and the byte
  vector of a given length for a number. They are used in statements only.\<close>

definition ipval :: "byte list \<Rightarrow> nat" where
  "ipval bs = foldl (\<lambda>n b. 256 * n + unat b) 0 bs"

fun ipbytes :: "nat \<Rightarrow> nat \<Rightarrow> byte list" where
  "ipbytes 0 v = []"
| "ipbytes (Suc l) v = ipbytes l (v div 256) @ [of_nat v]"


subsection \<open>Vocabulary for stating the properties of ParseClientIP\<close>





subsection \<open>Vocabulary for stating the properties of AddNetworkFence\<close>





subsection \<open>Vocabulary for stating the properties of key rotation\<close>

text \<open>The calls of a rotation in which every step succeeds, up to the release of the
  lock, and the calls that a run has added to those of the world it started in.\<close>

definition rotationSteps :: "call list" where
  "rotationSteps =
     [CallOpenIoctx, CallLockExclusive, CallWaitForPath, CallGetCryptoPassphrase,
      CallAddKey luksSlot1, CallGetNewCryptoPassphrase, CallAddKey luksSlot0,
      CallStoreCryptoPassphrase, CallRemoveKey luksSlot1]"

definition newCalls :: "world \<Rightarrow> world \<Rightarrow> call list" where
  "newCalls w w' = drop (length (calls w)) (calls w')"

section \<open>Properties of the DEK store\<close>

lemma GetMetadata_accesses:
  "accesses (snd (GetMetadata ri k)) = accesses ri @ [OpGet k]"
  by (simp add: GetMetadata_def Let_def split: option.splits)

lemma SetMetadata_accesses:
  "accesses (snd (SetMetadata ri k v)) = accesses ri @ [OpSet k v]"
  by (simp add: SetMetadata_def Let_def split: option.splits)

lemma MigrateMetadata_accesses:
  "length (accesses ri) < length (accesses (snd (MigrateMetadata ri ok nk d)))"
proof -
  obtain r1 ri1 where g1: "GetMetadata ri nk = (r1, ri1)"
    by (cases "GetMetadata ri nk")
  then have a1: "accesses ri1 = accesses ri @ [OpGet nk]"
    using GetMetadata_accesses [of ri nk] by simp
  obtain r2 ri2 where g2: "GetMetadata ri1 ok = (r2, ri2)"
    by (cases "GetMetadata ri1 ok")
  then have a2: "accesses ri2 = accesses ri1 @ [OpGet ok]"
    using GetMetadata_accesses [of ri1 ok] by simp
  have a3: "SetMetadata ri2 nk v = (r3, ri3) \<Longrightarrow> accesses ri3 = accesses ri2 @ [OpSet nk v]"
    for v r3 ri3
    using SetMetadata_accesses [of ri2 nk v] by simp
  show ?thesis
    using g1 g2 a1 a2
    by (auto simp: MigrateMetadata_def dest!: a3
        split: sum.splits go_error.splits option.splits prod.splits)
qed

text \<open>
  Claim C9. For every \<open>volumeID\<close>: when the image's own \<open>VolID\<close> is empty or differs
  from \<open>volumeID\<close>, \<open>StoreDEK\<close>, \<open>FetchDEK\<close> and \<open>RemoveDEK\<close> each return an error
  and the image unchanged, its metadata and its record of metadata calls included; and
  whenever \<open>StoreDEK\<close> or \<open>FetchDEK\<close> did make a metadata call, \<open>volumeID\<close> is the
  image's own non-empty \<open>VolID\<close>. \<open>RemoveDEK\<close> makes no metadata call at all.
\<close>

theorem DEK_store_guarded_by_VolID:
  "(VolID ri = '''' \<or> VolID ri \<noteq> volumeID \<longrightarrow>
      (\<exists>e. StoreDEK ri volumeID dek = (Some e, ri)) \<and>
      (\<exists>e. FetchDEK ri volumeID = (Inl e, ri)) \<and>
      (\<exists>e. RemoveDEK ri volumeID = (Some e, ri)))
   \<and> (accesses (snd (StoreDEK ri volumeID dek)) \<noteq> accesses ri \<longrightarrow>
        VolID ri = volumeID \<and> volumeID \<noteq> '''')
   \<and> (accesses (snd (FetchDEK ri volumeID)) \<noteq> accesses ri \<longrightarrow>
        VolID ri = volumeID \<and> volumeID \<noteq> '''')
   \<and> snd (RemoveDEK ri volumeID) = ri
   \<and> (VolID ri = volumeID \<and> volumeID \<noteq> '''' \<longrightarrow>
        StoreDEK ri volumeID dek = SetMetadata ri metadataDEK dek \<and>
        FetchDEK ri volumeID = MigrateMetadata ri oldMetadataDEK metadataDEK '''' \<and>
        RemoveDEK ri volumeID = (None, ri))"
  by (auto simp: StoreDEK_def FetchDEK_def RemoveDEK_def)


theorem DEK_store_guarded_by_VolID_witness:
  "(let ri = \<lparr>VolID = ''vol-a'', metadata = Map.empty, ioError = None, accesses = [],
               blockEncryption = True\<rparr>
    in (\<exists>e. StoreDEK ri ''vol-b'' ''dek'' = (Some e, ri)) \<and>
       (\<exists>e. FetchDEK ri ''vol-b'' = (Inl e, ri)) \<and>
       (\<exists>e. RemoveDEK ri ''vol-b'' = (Some e, ri)) \<and>
       accesses (snd (StoreDEK ri ''vol-a'' ''dek'')) \<noteq> accesses ri \<and>
       accesses (snd (FetchDEK ri ''vol-a'')) \<noteq> accesses ri \<and>
       RemoveDEK ri ''vol-a'' = (None, ri))"
  using DEK_store_guarded_by_VolID
          [of "\<lparr>VolID = ''vol-a'', metadata = Map.empty, ioError = None, accesses = [],
                blockEncryption = True\<rparr>" "''vol-b''" "''dek''"]
        DEK_store_guarded_by_VolID
          [of "\<lparr>VolID = ''vol-a'', metadata = Map.empty, ioError = None, accesses = [],
                blockEncryption = True\<rparr>" "''vol-a''" "''dek''"]
  by (simp add: Let_def SetMetadata_def MigrateMetadata_def GetMetadata_def)

section \<open>Properties of the encryption state check\<close>






section \<open>Properties of session id extraction\<close>








section \<open>Properties of the address-range expander\<close>

subsection \<open>Byte vectors as numbers\<close>

lemma ipval_Nil [simp]: "ipval [] = 0"
  by (simp add: ipval_def)

lemma ipval_snoc [simp]: "ipval (bs @ [b]) = 256 * ipval bs + unat b"
  by (simp add: ipval_def)

lemma ipval_append: "ipval (xs @ ys) = ipval xs * 256 ^ length ys + ipval ys"
proof (induction ys rule: rev_induct)
  case Nil
  then show ?case by simp
next
  case (snoc y ys)
  have "ipval (xs @ ys @ [y]) = 256 * ipval (xs @ ys) + unat y"
    using ipval_snoc [of "xs @ ys" y] by simp
  then show ?case by (simp add: snoc.IH algebra_simps)
qed

lemma ipval_Cons: "ipval (b # bs) = unat b * 256 ^ length bs + ipval bs"
  using ipval_append [of "[b]" bs] ipval_snoc [of "[]" b] by simp

lemma unat_byte_lt: "unat (b :: byte) < 256"
  using unsigned_less [of b, where 'a = nat] by simp

lemma ipval_lt: "ipval bs < 256 ^ length bs"
proof (induction bs rule: rev_induct)
  case Nil
  then show ?case by simp
next
  case (snoc b bs)
  have "256 * ipval bs + unat b < 256 * ipval bs + 256"
    using unat_byte_lt [of b] by simp
  also have "\<dots> = 256 * (ipval bs + 1)" by simp
  also have "\<dots> \<le> 256 * 256 ^ length bs"
    using snoc.IH by (intro mult_le_mono2) simp
  finally show ?case by simp
qed

lemma length_ipbytes [simp]: "length (ipbytes l v) = l"
  by (induction l arbitrary: v) auto

lemma ipbytes_ipval: "ipbytes (length bs) (ipval bs) = bs"
proof (induction bs rule: rev_induct)
  case Nil
  then show ?case by simp
next
  case (snoc b bs)
  have d: "(256 * ipval bs + unat b) div 256 = ipval bs"
    using unat_byte_lt [of b] by simp
  have "(of_nat (256 * ipval bs + unat b) :: byte) = of_nat (256 * ipval bs) + b"
    by simp
  also have "(of_nat (256 * ipval bs) :: byte) = 0"
  proof -
    have z: "(256 :: byte) = 0" by simp
    show ?thesis by (simp only: of_nat_mult of_nat_numeral z mult_zero_left)
  qed
  finally have o: "(of_nat (256 * ipval bs + unat b) :: byte) = b" by simp
  show ?case using snoc.IH d o by simp
qed

lemma ipval_ipbytes: "ipval (ipbytes l v) = v mod 256 ^ l"
proof (induction l arbitrary: v)
  case 0
  then show ?case by simp
next
  case (Suc l)
  have u: "unat (of_nat v :: byte) = v mod 256"
    by (simp add: unat_of_nat)
  have "ipval (ipbytes (Suc l) v) = 256 * ((v div 256) mod 256 ^ l) + v mod 256"
    by (simp add: Suc.IH u)
  also have "\<dots> = v mod 256 ^ Suc l"
    by (simp add: mod_mult2_eq)
  finally show ?case .
qed


lemma byte_inc_unat:
  fixes b :: byte
  shows "b + 1 \<noteq> 0 \<Longrightarrow> unat (b + 1) = unat b + 1"
    and "b + 1 = 0 \<Longrightarrow> unat b = 255"
proof -
  show "b + 1 \<noteq> 0 \<Longrightarrow> unat (b + 1) = unat b + 1"
    using unatSuc [of b] by (simp add: add.commute)
  show "b + 1 = 0 \<Longrightarrow> unat b = 255"
  proof -
    assume "b + 1 = 0"
    then have "b = - 1" by (simp add: eq_neg_iff_add_eq_0)
    moreover have "(- 1 :: byte) = 255" by simp
    ultimately have "b = 255" by simp
    then show "unat b = 255" by simp
  qed
qed

lemma incIP_loop_append:
  "length p = j \<Longrightarrow> incIP_loop j (p @ s) = incIP_loop j p @ s"
proof (induction j arbitrary: p s)
  case 0
  then show ?case by simp
next
  case (Suc j)
  then obtain q b where p: "p = q @ [b]" and q: "length q = j"
    by (metis length_Suc_conv_rev)
  have u1: "(p @ s)[j := (p @ s) ! j + 1] = q @ [b + 1] @ s"
    using q by (simp add: p list_update_append nth_append)
  have u2: "p[j := p ! j + 1] = q @ [b + 1]"
    using q by (simp add: p list_update_append nth_append)
  have n1: "(q @ [b + 1] @ s) ! j = b + 1" using q by (simp add: nth_append)
  have n2: "(q @ [b + 1]) ! j = b + 1" using q by (simp add: nth_append)
  show ?case
  proof (cases "0 < b + 1")
    case True
    then show ?thesis
      by (simp add: u1 u2 n1 n2 Let_def del: append.simps append_assoc)
  next
    case False
    have "incIP_loop j (q @ [b + 1] @ s) = incIP_loop j q @ [b + 1] @ s"
      by (rule Suc.IH [OF q])
    moreover have "incIP_loop j (q @ [b + 1]) = incIP_loop j q @ [b + 1]"
      by (rule Suc.IH [OF q])
    ultimately show ?thesis
      using False
      by (simp add: u1 u2 n1 n2 Let_def del: append.simps)
  qed
qed

lemma incIP_loop_val:
  "length p = j \<Longrightarrow>
     length (incIP_loop j p) = j \<and> ipval (incIP_loop j p) = (ipval p + 1) mod 256 ^ j"
proof (induction j arbitrary: p)
  case 0
  then show ?case by simp
next
  case (Suc j)
  then obtain q b where p: "p = q @ [b]" and q: "length q = j"
    by (metis length_Suc_conv_rev)
  have u2: "p[j := p ! j + 1] = q @ [b + 1]"
    using q by (simp add: p list_update_append nth_append)
  have n2: "(q @ [b + 1]) ! j = b + 1" using q by (simp add: nth_append)
  show ?case
  proof (cases "0 < b + 1")
    case True
    then have nz: "b + 1 \<noteq> 0" by (simp add: word_neq_0_conv)
    have r: "incIP_loop (Suc j) p = q @ [b + 1]"
      using True by (simp add: u2 n2 Let_def)
    have "ipval (q @ [b + 1]) = 256 * ipval q + unat b + 1"
      by (simp add: byte_inc_unat(1) [OF nz])
    moreover have "256 * ipval q + unat b + 1 < 256 ^ Suc j"
    proof -
      have "unat (b + 1) < 256" by (rule unat_byte_lt)
      then have "unat b + 1 < 256" by (simp add: byte_inc_unat(1) [OF nz])
      moreover have "ipval q + 1 \<le> 256 ^ j" using ipval_lt [of q] q by simp
      then have "256 * (ipval q + 1) \<le> 256 * 256 ^ j" by (rule mult_le_mono2)
      ultimately show ?thesis by simp
    qed
    moreover have "ipval p = 256 * ipval q + unat b" by (simp add: p)
    ultimately show ?thesis
      using q by (simp add: r del: incIP_loop.simps)
  next
    case False
    then have z: "b + 1 = 0" by (simp add: word_neq_0_conv [symmetric])
    have b: "unat b = 255" by (rule byte_inc_unat(2) [OF z])
    have "incIP_loop (Suc j) p = incIP_loop j (q @ [b + 1])"
      using False by (simp add: u2 n2 Let_def)
    also have "\<dots> = incIP_loop j q @ [b + 1]"
      by (rule incIP_loop_append [OF q])
    finally have r: "incIP_loop (Suc j) p = incIP_loop j q @ [0]"
      by (simp only: z)
    from Suc.IH [OF q] have l: "length (incIP_loop j q) = j"
      and v: "ipval (incIP_loop j q) = (ipval q + 1) mod 256 ^ j" by simp_all
    have "ipval (incIP_loop (Suc j) p) = 256 * ((ipval q + 1) mod 256 ^ j)"
      by (simp add: r v del: incIP_loop.simps)
    also have "\<dots> = (256 * (ipval q + 1)) mod (256 * 256 ^ j)"
      by (simp add: mult_mod_right)
    also have "\<dots> = (ipval p + 1) mod 256 ^ Suc j"
      by (simp add: p b)
    finally show ?thesis using l by (simp add: r del: incIP_loop.simps)
  qed
qed

lemma incIP_val:
  "length (incIP ip) = length ip"
  "ipval (incIP ip) = (ipval ip + 1) mod 256 ^ length ip"
  using incIP_loop_val [of ip "length ip"] by (simp_all add: incIP_def)

subsection \<open>Masks and containment\<close>

lemma byte_ff: "(0xff :: byte) = - 1" by simp

lemma bit_prefix_mask:
  "bit (NOT (drop_bit n (0xff :: byte))) i = (i < 8 \<and> 8 \<le> n + i)"
  unfolding byte_ff
  by (auto simp add: bit_not_iff bit_drop_bit_eq possible_bit_word bit_mask_iff)

lemma byte_mask_eq:
  fixes x y :: byte
  assumes "n \<le> 8"
  shows "(x AND NOT (drop_bit n 0xff) = y AND NOT (drop_bit n 0xff))
         = (unat x div 2 ^ (8 - n) = unat y div 2 ^ (8 - n))"
proof -
  let ?M = "NOT (drop_bit n (0xff :: byte))"
  have "(x AND ?M = y AND ?M) = (drop_bit (8 - n) x = drop_bit (8 - n) y)"
  proof
    assume eq: "x AND ?M = y AND ?M"
    show "drop_bit (8 - n) x = drop_bit (8 - n) y"
    proof (rule bit_word_eqI)
      fix i assume "i < LENGTH(8)"
      have "bit (x AND ?M) (8 - n + i) = bit (y AND ?M) (8 - n + i)"
        using eq by simp
      then show "bit (drop_bit (8 - n) x) i = bit (drop_bit (8 - n) y) i"
        using assms
        by (cases "8 - n + i < 8")
           (auto simp add: bit_and_iff bit_prefix_mask bit_drop_bit_eq dest: bit_imp_le_length)
    qed
  next
    assume eq: "drop_bit (8 - n) x = drop_bit (8 - n) y"
    show "x AND ?M = y AND ?M"
    proof (rule bit_word_eqI)
      fix i assume i: "i < LENGTH(8)"
      show "bit (x AND ?M) i = bit (y AND ?M) i"
      proof (cases "8 \<le> n + i")
        case True
        then have "8 - n + (i - (8 - n)) = i" using assms by simp
        moreover have "bit (drop_bit (8 - n) x) (i - (8 - n)) = bit (drop_bit (8 - n) y) (i - (8 - n))"
          using eq by simp
        ultimately have "bit x i = bit y i"
          by (simp add: bit_drop_bit_eq)
        then show ?thesis by (simp add: bit_and_iff)
      next
        case False
        then show ?thesis by (simp add: bit_and_iff bit_prefix_mask)
      qed
    qed
  qed
  also have "\<dots> = (unat (drop_bit (8 - n) x) = unat (drop_bit (8 - n) y))"
    by (simp add: word_unat_eq_iff)
  also have "\<dots> = (unat x div 2 ^ (8 - n) = unat y div 2 ^ (8 - n))"
  proof -
    have "unat (drop_bit k w) = unat w div 2 ^ k" for k and w :: byte
      by (subst unat_drop_bit_eq) (rule drop_bit_eq_div)
    then show ?thesis by simp
  qed
  finally show ?thesis .
qed


lemma and_ff: "(w :: byte) AND 0xff = w"
proof -
  have "(0xff :: byte) = - 1" by simp
  then show ?thesis by (simp only: and.right_neutral)
qed

lemma CIDRMask_loop_zero: "CIDRMask_loop 0 l = replicate l 0"
  by (induction l) simp_all

lemma length_CIDRMask_loop [simp]: "length (CIDRMask_loop n l) = l"
  by (induction l arbitrary: n) simp_all

lemma map2_and_zero:
  "length xs = l \<Longrightarrow> map2 (AND) xs (replicate l (0 :: byte)) = replicate l 0"
  by (induction xs arbitrary: l) auto

lemma split_digits_eq:
  fixes a a' r r' B :: nat
  assumes "r < B" and "r' < B"
  shows "(a * B + r = a' * B + r') = (a = a' \<and> r = r')"
proof
  assume eq: "a * B + r = a' * B + r'"
  have "(a * B + r) div B = a" "(a' * B + r') div B = a'"
    using assms by simp_all
  with eq have "a = a'" by simp
  with eq show "a = a' \<and> r = r'" by simp
qed simp

lemma div_high_part:
  fixes a r :: nat
  assumes "r < 2 ^ m"
  shows "(a * 2 ^ m + r) div 2 ^ (m + j) = a div 2 ^ j"
proof -
  have "(a * 2 ^ m + r) div 2 ^ (m + j) = ((a * 2 ^ m + r) div 2 ^ m) div 2 ^ j"
    by (simp add: power_add div_mult2_eq)
  also have "(a * 2 ^ m + r) div 2 ^ m = a" using assms by simp
  finally show ?thesis .
qed

lemma pow256: "(256 :: nat) ^ l = 2 ^ (8 * l)"
proof -
  have "(256 :: nat) = 2 ^ 8" by simp
  then show ?thesis by (simp only: power_mult)
qed

lemma masked_eq_iff_div:
  "length xs = l \<Longrightarrow> length ys = l \<Longrightarrow> n \<le> 8 * l \<Longrightarrow>
     (map2 (AND) xs (CIDRMask_loop n l) = map2 (AND) ys (CIDRMask_loop n l))
     = (ipval xs div 2 ^ (8 * l - n) = ipval ys div 2 ^ (8 * l - n))"
proof (induction l arbitrary: n xs ys)
  case 0
  then show ?case by simp
next
  case (Suc l)
  from Suc.prems obtain x xs' where xs: "xs = x # xs'" and lx: "length xs' = l"
    by (cases xs) auto
  from Suc.prems obtain y ys' where ys: "ys = y # ys'" and ly: "length ys' = l"
    by (cases ys) auto
  have vx: "ipval xs = unat x * 2 ^ (8 * l) + ipval xs'"
    by (simp add: xs ipval_Cons lx pow256)
  have vy: "ipval ys = unat y * 2 ^ (8 * l) + ipval ys'"
    by (simp add: ys ipval_Cons ly pow256)
  have bx: "ipval xs' < 2 ^ (8 * l)" using ipval_lt [of xs'] by (simp add: lx pow256)
  have by': "ipval ys' < 2 ^ (8 * l)" using ipval_lt [of ys'] by (simp add: ly pow256)
  show ?case
  proof (cases "8 \<le> n")
    case True
    define k where "k = 8 * l - (n - 8)"
    have k: "8 * Suc l - n = k" "k \<le> 8 * l"
      using True Suc.prems(3) by (simp_all add: k_def)
    define d where "d = 8 * l - k"
    have e: "(2 :: nat) ^ (8 * l) = 2 ^ d * 2 ^ k"
      using k(2) by (simp add: d_def flip: power_add)
    have IH: "(map2 (AND) xs' (CIDRMask_loop (n - 8) l) = map2 (AND) ys' (CIDRMask_loop (n - 8) l))
              = (ipval xs' div 2 ^ k = ipval ys' div 2 ^ k)"
      unfolding k_def using True Suc.prems(3) by (intro Suc.IH lx ly) simp
    have dx: "ipval xs div 2 ^ k = unat x * 2 ^ d + ipval xs' div 2 ^ k"
      by (simp add: vx e flip: mult.assoc)
    have dy: "ipval ys div 2 ^ k = unat y * 2 ^ d + ipval ys' div 2 ^ k"
      by (simp add: vy e flip: mult.assoc)
    have lt: "v < 2 ^ (8 * l) \<Longrightarrow> v div 2 ^ k < 2 ^ d" for v :: nat
      by (simp add: e less_mult_imp_div_less)
    have "(map2 (AND) xs (CIDRMask_loop n (Suc l)) = map2 (AND) ys (CIDRMask_loop n (Suc l)))
          = (x = y \<and> ipval xs' div 2 ^ k = ipval ys' div 2 ^ k)"
      using True IH by (simp add: xs ys and_ff)
    also have "\<dots> = (unat x = unat y \<and> ipval xs' div 2 ^ k = ipval ys' div 2 ^ k)"
      by (simp add: word_unat_eq_iff)
    also have "\<dots> = (ipval xs div 2 ^ k = ipval ys div 2 ^ k)"
      unfolding dx dy using split_digits_eq [OF lt [OF bx] lt [OF by'], of "unat x" "unat y"]
      by simp
    finally show ?thesis by (simp only: k(1))
  next
    case False
    then have n8: "n \<le> 8" by simp
    have k: "8 * Suc l - n = 8 * l + (8 - n)" using False by simp
    have "(map2 (AND) xs (CIDRMask_loop n (Suc l)) = map2 (AND) ys (CIDRMask_loop n (Suc l)))
          = (x AND NOT (drop_bit n 0xff) = y AND NOT (drop_bit n 0xff))"
      using False by (simp add: xs ys CIDRMask_loop_zero map2_and_zero lx ly)
    also have "\<dots> = (unat x div 2 ^ (8 - n) = unat y div 2 ^ (8 - n))"
      by (rule byte_mask_eq [OF n8])
    also have "\<dots> = (ipval xs div 2 ^ (8 * l + (8 - n)) = ipval ys div 2 ^ (8 * l + (8 - n)))"
      by (simp add: vx vy div_high_part [OF bx] div_high_part [OF by'])
    finally show ?thesis by (simp only: k)
  qed
qed

lemma Contains_v4:
  assumes "length nn = 4" and "length m = 4" and "length ip = 4"
  shows "IPNet_Contains \<lparr>IP = nn, Mask = m\<rparr> ip = (map2 (AND) nn m = map2 (AND) ip m)"
proof -
  have nz: "nn \<noteq> []" "ip \<noteq> []" using assms by auto
  show ?thesis
    using assms nz by (simp add: IPNet_Contains_def networkNumberAndMask_def To4_def Let_def)
qed

lemma Contains_v4_div:
  assumes "length nn = 4" and "n \<le> 32" and "length ip = 4"
  shows "IPNet_Contains \<lparr>IP = nn, Mask = CIDRMask_loop n 4\<rparr> ip
         = (ipval nn div 2 ^ (32 - n) = ipval ip div 2 ^ (32 - n))"
  using Contains_v4 [OF assms(1) _ assms(3), of "CIDRMask_loop n 4"]
        masked_eq_iff_div [OF assms(1) assms(3), of n] assms(2)
  by simp

lemma getIPRange_loop_Some_not_whole:
  assumes nn: "length nn = 4"
    and r: "getIPRange_loop ipnet ip hosts = Some y"
  shows "\<not> (ipnet = \<lparr>IP = nn, Mask = CIDRMask_loop 0 4\<rparr> \<and> length ip = 4)"
  using r
proof (rule getIPRange_loop.raw_induct
    [rotated, where P = "\<lambda>ipnet ip hosts y.
       \<not> (ipnet = \<lparr>IP = nn, Mask = CIDRMask_loop 0 4\<rparr> \<and> length ip = 4)"])
  fix loop :: "IPNet \<Rightarrow> IP \<Rightarrow> string list \<Rightarrow> string list option"
  fix ipnet ip hosts y
  assume IH: "\<And>ipnet ip hosts y. loop ipnet ip hosts = Some y \<Longrightarrow>
                \<not> (ipnet = \<lparr>IP = nn, Mask = CIDRMask_loop 0 4\<rparr> \<and> length ip = 4)"
    and st: "(if IPNet_Contains ipnet ip then loop ipnet (incIP ip) (hosts @ [IP_String ip])
              else Some hosts) = Some y"
  show "\<not> (ipnet = \<lparr>IP = nn, Mask = CIDRMask_loop 0 4\<rparr> \<and> length ip = 4)"
  proof
    assume a: "ipnet = \<lparr>IP = nn, Mask = CIDRMask_loop 0 4\<rparr> \<and> length ip = 4"
    then have "IPNet_Contains ipnet ip"
      using Contains_v4_div [OF nn, of 0 ip] ipval_lt [of nn] ipval_lt [of ip] nn by simp
    with st have s: "loop ipnet (incIP ip) (hosts @ [IP_String ip]) = Some y" by simp
    from IH [OF s] a show False by (simp add: incIP_val(1))
  qed
qed

lemma getIPRange_loop_diverges:
  assumes "length nn = 4" and "length ip = 4"
  shows "getIPRange_loop \<lparr>IP = nn, Mask = CIDRMask_loop 0 4\<rparr> ip hosts = None"
  using getIPRange_loop_Some_not_whole [OF assms(1), of _ ip hosts] assms(2)
  by (cases "getIPRange_loop \<lparr>IP = nn, Mask = CIDRMask_loop 0 4\<rparr> ip hosts") auto

lemma getIPRange_loop_closed_form:
  fixes nn :: IP and n :: nat
  defines "K \<equiv> 2 ^ (32 - n)"
  defines "E \<equiv> (ipval nn div K + 1) * K"
  assumes nn: "length nn = 4" and n: "1 \<le> n" "n \<le> 32"
  shows "length ip = 4 \<Longrightarrow> ipval ip div K = ipval nn div K \<Longrightarrow>
           getIPRange_loop \<lparr>IP = nn, Mask = CIDRMask_loop n 4\<rparr> ip hosts
           = Some (hosts @ map (\<lambda>v. IP_String (ipbytes 4 v)) [ipval ip ..< E])"
proof (induction "E - ipval ip" arbitrary: ip hosts rule: less_induct)
  case less
  let ?net = "\<lparr>IP = nn, Mask = CIDRMask_loop n 4\<rparr>"
  let ?f = "\<lambda>v. IP_String (ipbytes 4 v)"
  define v where "v = ipval ip"
  define Q where "Q = ipval nn div K"
  have Kpos: "0 < K" by (simp add: K_def)
  have K32: "2 ^ n * K = (2 :: nat) ^ 32"
    using n by (simp add: K_def flip: power_add)
  have N32: "ipval nn < 2 ^ 32" using ipval_lt [of nn] nn by simp
  have "Q < 2 ^ n"
    unfolding Q_def using N32 K32 Kpos
    by (metis less_mult_imp_div_less mult.commute)
  then have "Q + 1 \<le> 2 ^ n" by simp
  then have "(Q + 1) * K \<le> 2 ^ n * K" by (rule mult_le_mono1)
  then have E32: "E \<le> 2 ^ 32" by (simp add: E_def Q_def K32)
  have vQ: "v div K = Q" using less.prems(2) by (simp add: v_def Q_def)
  have vE: "v < E"
    unfolding E_def Q_def [symmetric] using vQ Kpos
    by (metis Suc_eq_plus1 dividend_less_times_div mult.commute mult_Suc)
  have "v div K * K \<le> v" by simp
  then have lo: "Q * K \<le> v" by (simp add: vQ)
  have c: "IPNet_Contains ?net ip"
    using Contains_v4_div [OF nn n(2) less.prems(1)] less.prems(2) by (simp add: K_def)
  have fv: "?f v = IP_String ip"
    using ipbytes_ipval [of ip] less.prems(1) by (simp add: v_def)
  have li: "length (incIP ip) = 4" using less.prems(1) by (simp add: incIP_val(1))
  have vi: "ipval (incIP ip) = (v + 1) mod 2 ^ 32"
    using incIP_val(2) [of ip] less.prems(1) by (simp add: v_def)
  have step: "getIPRange_loop ?net ip hosts
              = getIPRange_loop ?net (incIP ip) (hosts @ [IP_String ip])"
    by (subst getIPRange_loop.simps) (simp add: c)
  show ?case
  proof (cases "v + 1 < E")
    case True
    then have v1: "ipval (incIP ip) = v + 1" using vi E32 by simp
    have "(v + 1) div K = Q"
    proof -
      have "Q * K \<le> v + 1" using lo by simp
      moreover have "v + 1 < (Q + 1) * K" using True by (simp add: E_def Q_def)
      ultimately show ?thesis
        using Kpos by (metis Suc_eq_plus1 div_nat_eqI mult.commute)
    qed
    then have q: "ipval (incIP ip) div K = ipval nn div K" by (simp add: v1 Q_def)
    have "E - ipval (incIP ip) < E - ipval ip" using True by (simp add: v1 v_def)
    from less.hyps [OF this li q]
    have "getIPRange_loop ?net (incIP ip) (hosts @ [IP_String ip])
          = Some ((hosts @ [IP_String ip]) @ map ?f [v + 1 ..< E])"
      by (simp add: v1)
    also have "(hosts @ [IP_String ip]) @ map ?f [v + 1 ..< E] = hosts @ map ?f [v ..< E]"
      using vE fv by (simp add: upt_conv_Cons)
    finally show ?thesis by (simp add: step v_def)
  next
    case False
    with vE have e: "v + 1 = E" by simp
    have "ipval (incIP ip) div K \<noteq> Q"
    proof (cases "E < 2 ^ 32")
      case True
      then have "ipval (incIP ip) = (Q + 1) * K" using vi e by (simp add: E_def Q_def)
      then show ?thesis using Kpos by simp
    next
      case False
      with E32 have e32: "E = 2 ^ 32" by simp
      then have z: "ipval (incIP ip) = 0" using vi e by simp
      have "(Q + 1) * K = 2 ^ n * K" using e32 by (simp add: E_def Q_def K32)
      then have "Q + 1 = 2 ^ n" by (metis Kpos mult_cancel2 neq0_conv)
      moreover have "(2 :: nat) \<le> 2 ^ n" using n(1)
        by (metis One_nat_def Suc_leI one_less_numeral_iff power_increasing power_one_right semiring_norm(76) less_imp_le_nat numeral_le_iff one_le_numeral)
      ultimately have "Q \<noteq> 0" by simp
      then show ?thesis by (simp add: z)
    qed
    then have nc: "\<not> IPNet_Contains ?net (incIP ip)"
      using Contains_v4_div [OF nn n(2) li] by (auto simp: K_def Q_def)
    have "getIPRange_loop ?net (incIP ip) (hosts @ [IP_String ip]) = Some (hosts @ [IP_String ip])"
      by (subst getIPRange_loop.simps) (simp add: nc)
    moreover have "map ?f [v ..< E] = [IP_String ip]"
      using e fv by (simp add: upt_conv_Cons flip: e)
    ultimately show ?thesis by (simp add: step v_def)
  qed
qed

lemma byte_masked_low_bits:
  fixes x :: byte
  assumes "n \<le> 8"
  shows "2 ^ (8 - n) dvd unat (x AND NOT (drop_bit n 0xff))"
proof -
  let ?w = "x AND NOT (drop_bit n (0xff :: byte))"
  have "take_bit (8 - n) ?w = 0"
    by (rule bit_word_eqI) (auto simp add: bit_take_bit_iff bit_and_iff bit_prefix_mask)
  then have "unat (take_bit (8 - n) ?w) = 0" by simp
  then have "take_bit (8 - n) (unat ?w) = 0" by (simp only: unsigned_take_bit_eq)
  then show ?thesis by (simp add: take_bit_eq_mod mod_eq_0_iff_dvd)
qed

lemma ipval_replicate_zero: "ipval (replicate l 0) = 0"
  by (induction l) (simp_all add: ipval_Cons)

lemma masked_low_bits:
  "length xs = l \<Longrightarrow> n \<le> 8 * l \<Longrightarrow>
     2 ^ (8 * l - n) dvd ipval (map2 (AND) xs (CIDRMask_loop n l))"
proof (induction l arbitrary: n xs)
  case 0
  then show ?case by simp
next
  case (Suc l)
  from Suc.prems obtain x xs' where xs: "xs = x # xs'" and lx: "length xs' = l"
    by (cases xs) auto
  show ?case
  proof (cases "8 \<le> n")
    case True
    define k where "k = 8 * l - (n - 8)"
    have k: "8 * Suc l - n = k" "k \<le> 8 * l"
      using True Suc.prems(2) by (simp_all add: k_def)
    have IH: "2 ^ k dvd ipval (map2 (AND) xs' (CIDRMask_loop (n - 8) l))"
      unfolding k_def using True Suc.prems(2) by (intro Suc.IH lx) simp
    have "(2 :: nat) ^ k dvd 2 ^ (8 * l)" using k(2) by (rule le_imp_power_dvd)
    then have "2 ^ k dvd unat (x AND 0xff) * 2 ^ (8 * l)" by simp
    then have "2 ^ k dvd unat (x AND 0xff) * 2 ^ (8 * l)
                    + ipval (map2 (AND) xs' (CIDRMask_loop (n - 8) l))"
      using IH by (rule dvd_add)
    moreover have "ipval (map2 (AND) xs (CIDRMask_loop n (Suc l)))
                   = unat (x AND 0xff) * 2 ^ (8 * l)
                     + ipval (map2 (AND) xs' (CIDRMask_loop (n - 8) l))"
      using True by (simp add: xs ipval_Cons lx pow256)
    ultimately show ?thesis by (simp only: k(1))
  next
    case False
    then have n8: "n \<le> 8" by simp
    have k: "8 * Suc l - n = (8 - n) + 8 * l" using False by simp
    have "2 ^ (8 - n) * 2 ^ (8 * l) dvd unat (x AND NOT (drop_bit n 0xff)) * 2 ^ (8 * l)"
      using byte_masked_low_bits [OF n8, of x] by (rule mult_dvd_mono) simp
    moreover have "ipval (map2 (AND) xs (CIDRMask_loop n (Suc l)))
                   = unat (x AND NOT (drop_bit n 0xff)) * 2 ^ (8 * l)"
      using False
      by (simp add: xs ipval_Cons lx pow256 CIDRMask_loop_zero map2_and_zero
          ipval_replicate_zero)
    ultimately show ?thesis by (simp only: k power_add)
  qed
qed

lemma CIDRMask_loop_zeros4: "CIDRMask_loop 0 4 = [0, 0, 0, 0]"
proof -
  have "CIDRMask_loop 0 4 = replicate 4 0" by (rule CIDRMask_loop_zero)
  also have "\<dots> = [0, 0, 0, 0]" by (simp add: numeral_eq_Suc)
  finally show ?thesis .
qed

lemma CIDRMask_loop_nonzero:
  assumes "1 \<le> n"
  shows "CIDRMask_loop n 4 \<noteq> [0, 0, 0, 0]"
proof -
  have s: "CIDRMask_loop n 4 = (if 8 \<le> n then 0xff else NOT (drop_bit n 0xff)) # CIDRMask_loop (n - 8) 3"
    by (simp add: numeral_eq_Suc)
  have "bit (NOT (drop_bit n (0xff :: byte))) 7"
    using assms by (simp add: bit_prefix_mask)
  then have "NOT (drop_bit n (0xff :: byte)) \<noteq> 0" by auto
  then show ?thesis by (auto simp: s)
qed

lemma ParseCIDR_v4:
  assumes p: "ParseCIDR cidr = Some (netIP, ipnet)" and m: "length (Mask ipnet) = 4"
  shows "\<exists>a n. length a = 4 \<and> n \<le> 32 \<and> netIP = v4InV6Prefix @ a
               \<and> ipnet = \<lparr>IP = map2 (AND) a (CIDRMask_loop n 4), Mask = CIDRMask_loop n 4\<rparr>
               \<and> IP_Mask netIP (Mask ipnet) = IP ipnet"
proof -
  define maskText where "maskText = tl (dropWhile (\<lambda>c. c \<noteq> CHR ''/'') cidr)"
  from p obtain a where a: "ParseAddr (takeWhile (\<lambda>c. c \<noteq> CHR ''/'') cidr) = Some a"
    by (auto simp: ParseCIDR_def Let_def split: if_splits option.splits)
  define bitLen :: nat where "bitLen = (if length a = 4 then 32 else 128)"
  from p a have le: "decimal maskText \<le> bitLen"
    and r: "netIP = As16 a"
           "ipnet = \<lparr>IP = IP_Mask (As16 a) (CIDRMask (decimal maskText) bitLen),
                     Mask = CIDRMask (decimal maskText) bitLen\<rparr>"
    by (auto simp: ParseCIDR_def Let_def maskText_def bitLen_def split: if_splits)
  have l4: "length a = 4"
  proof (rule ccontr)
    assume "length a \<noteq> 4"
    then have "bitLen = 128" by (simp add: bitLen_def)
    with le have "Mask ipnet = CIDRMask_loop (decimal maskText) 16"
      by (simp add: r CIDRMask_def)
    with m show False by simp
  qed
  then have b: "bitLen = 32" by (simp add: bitLen_def)
  define n where "n = decimal maskText"
  have mk: "CIDRMask n 32 = CIDRMask_loop n 4" using le b by (simp add: CIDRMask_def n_def)
  have ip: "IP_Mask (v4InV6Prefix @ a) (CIDRMask_loop n 4) = map2 (AND) a (CIDRMask_loop n 4)"
    using l4 by (simp add: IP_Mask_def Let_def v4InV6Prefix_def)
  have "netIP = v4InV6Prefix @ a" using l4 by (simp add: r As16_def)
  moreover have "ipnet = \<lparr>IP = map2 (AND) a (CIDRMask_loop n 4), Mask = CIDRMask_loop n 4\<rparr>"
    using l4 ip by (simp add: r b mk As16_def flip: n_def)
  moreover have "IP_Mask netIP (Mask ipnet) = IP ipnet"
    using calculation ip by simp
  ultimately show ?thesis using l4 le b n_def by blast
qed

lemma getIPRange_v4_whole_space:
  assumes p: "ParseCIDR cidr = Some (netIP, ipnet)" and m: "Mask ipnet = [0, 0, 0, 0]"
  shows "getIPRange cidr = None"
proof -
  from m have "length (Mask ipnet) = 4" by simp
  from ParseCIDR_v4 [OF p this] obtain a n where
    a: "length a = 4" and n: "n \<le> 32"
    and net: "ipnet = \<lparr>IP = map2 (AND) a (CIDRMask_loop n 4), Mask = CIDRMask_loop n 4\<rparr>"
    and st: "IP_Mask netIP (Mask ipnet) = IP ipnet"
    by blast
  have "n = 0"
  proof (rule ccontr)
    assume "n \<noteq> 0"
    then have "CIDRMask_loop n 4 \<noteq> [0, 0, 0, 0]" by (intro CIDRMask_loop_nonzero) simp
    with m net show False by simp
  qed
  then have "getIPRange_loop ipnet (IP ipnet) [] = None"
    using getIPRange_loop_diverges [of "map2 (AND) a (CIDRMask_loop 0 4)" "IP ipnet" "[]"] a net
    by simp
  then show ?thesis by (simp add: getIPRange_def p st)
qed

lemma getIPRange_v4_closed_form:
  assumes p: "ParseCIDR cidr = Some (netIP, ipnet)" and m: "length (Mask ipnet) = 4"
    and nz: "Mask ipnet \<noteq> [0, 0, 0, 0]"
  shows "\<exists>n. 1 \<le> n \<and> n \<le> 32 \<and> Mask ipnet = CIDRMask n 32
             \<and> length (IP ipnet) = 4
             \<and> 2 ^ (32 - n) dvd ipval (IP ipnet)
             \<and> getIPRange cidr
                 = Some (Inr (map (\<lambda>v. IP_String (ipbytes 4 v))
                                  [ipval (IP ipnet) ..< ipval (IP ipnet) + 2 ^ (32 - n)]))"
proof -
  from ParseCIDR_v4 [OF p m] obtain a n where
    a: "length a = 4" and n: "n \<le> 32"
    and net: "ipnet = \<lparr>IP = map2 (AND) a (CIDRMask_loop n 4), Mask = CIDRMask_loop n 4\<rparr>"
    and st: "IP_Mask netIP (Mask ipnet) = IP ipnet"
    by blast
  let ?nn = "map2 (AND) a (CIDRMask_loop n 4)"
  let ?K = "(2 :: nat) ^ (32 - n)"
  have n1: "1 \<le> n"
  proof (rule ccontr)
    assume "\<not> 1 \<le> n"
    then have "n = 0" by simp
    with net nz show False by (simp add: CIDRMask_loop_zeros4)
  qed
  have l: "length ?nn = 4" using a by simp
  have d: "?K dvd ipval ?nn"
    using masked_low_bits [of a 4 n] a n by simp
  then have e: "(ipval ?nn div ?K + 1) * ?K = ipval ?nn + ?K"
    by (simp add: add.commute)
  have "getIPRange_loop \<lparr>IP = ?nn, Mask = CIDRMask_loop n 4\<rparr> ?nn []
        = Some ([] @ map (\<lambda>v. IP_String (ipbytes 4 v)) [ipval ?nn ..< (ipval ?nn div ?K + 1) * ?K])"
    by (rule getIPRange_loop_closed_form [OF l n1 n l]) simp
  then have "getIPRange_loop \<lparr>IP = ?nn, Mask = CIDRMask_loop n 4\<rparr> ?nn []
        = Some (map (\<lambda>v. IP_String (ipbytes 4 v)) [ipval ?nn ..< ipval ?nn + ?K])"
    by (simp only: e append_Nil)
  then have "getIPRange cidr
             = Some (Inr (map (\<lambda>v. IP_String (ipbytes 4 v)) [ipval ?nn ..< ipval ?nn + ?K]))"
    using st by (simp add: getIPRange_def p net)
  moreover have "Mask ipnet = CIDRMask n 32" using n by (simp add: net CIDRMask_def)
  ultimately show ?thesis using n1 n l d net by auto
qed

subsection \<open>Termination and result of the expansion\<close>

lemma ipval_all_ones: "ipval [255, 255, 255, 255] = 2 ^ 32 - 1"
  by (simp add: ipval_def)

lemma ipval_zeros4: "ipval [0, 0, 0, 0] = 0"
  by (simp add: ipval_def)

lemma not_both_ends:
  assumes nn: "length nn = 4" and n: "1 \<le> n" "n \<le> 32"
  shows "\<not> (IPNet_Contains \<lparr>IP = nn, Mask = CIDRMask_loop n 4\<rparr> [255, 255, 255, 255]
            \<and> IPNet_Contains \<lparr>IP = nn, Mask = CIDRMask_loop n 4\<rparr> [0, 0, 0, 0])"
proof
  assume a: "IPNet_Contains \<lparr>IP = nn, Mask = CIDRMask_loop n 4\<rparr> [255, 255, 255, 255]
            \<and> IPNet_Contains \<lparr>IP = nn, Mask = CIDRMask_loop n 4\<rparr> [0, 0, 0, 0]"
  let ?K = "(2 :: nat) ^ (32 - n)"
  from a have "ipval nn div ?K = (2 ^ 32 - 1) div ?K" "ipval nn div ?K = 0"
    using Contains_v4_div [OF nn n(2), of "[255, 255, 255, 255]"]
          Contains_v4_div [OF nn n(2), of "[0, 0, 0, 0]"]
    by (simp_all add: ipval_all_ones ipval_zeros4)
  then have "((2 :: nat) ^ 32 - 1) div ?K = 0" by simp
  then have lt: "(2 :: nat) ^ 32 - 1 < ?K" by (simp add: div_eq_0_iff)
  have "?K \<le> 2 ^ 31" using n(1) by (intro power_increasing) simp_all
  with lt show False by simp
qed

text \<open>
  Claim C8, as amended. For a valid IPv4 CIDR block, the expansion loop does not
  terminate exactly when the prefix length is 0, that is, when the block contains both
  the all-ones address 255.255.255.255 and the address 0.0.0.0 that incrementing it
  wraps to. A block that contains the all-ones address and has a prefix length of at
  least 1 terminates: 0.0.0.0 lies outside it.
\<close>

theorem getIPRange_terminates_iff_not_whole_space:
  assumes p: "ParseCIDR cidr = Some (netIP, ipnet)" and m: "length (Mask ipnet) = 4"
  shows "(getIPRange cidr = None) = (Mask ipnet = CIDRMask 0 32)
       \<and> (getIPRange cidr = None)
         = (IPNet_Contains ipnet [255, 255, 255, 255] \<and> IPNet_Contains ipnet [0, 0, 0, 0])"
proof -
  have z: "CIDRMask 0 32 = [0, 0, 0, 0]"
    by (simp add: CIDRMask_def CIDRMask_loop_zeros4)
  from ParseCIDR_v4 [OF p m] obtain a n where
    a: "length a = 4" and n: "n \<le> 32"
    and net: "ipnet = \<lparr>IP = map2 (AND) a (CIDRMask_loop n 4), Mask = CIDRMask_loop n 4\<rparr>"
    by blast
  have l: "length (map2 (AND) a (CIDRMask_loop n 4)) = 4" using a by simp
  show ?thesis
  proof (cases "Mask ipnet = [0, 0, 0, 0]")
    case True
    then have d: "getIPRange cidr = None" by (rule getIPRange_v4_whole_space [OF p])
    have "n = 0"
    proof (rule ccontr)
      assume "n \<noteq> 0"
      then have "CIDRMask_loop n 4 \<noteq> [0, 0, 0, 0]" by (intro CIDRMask_loop_nonzero) simp
      with True net show False by simp
    qed
    then have "IPNet_Contains ipnet ip" if "length ip = 4" for ip
      using Contains_v4_div [OF l, of 0 ip] that ipval_lt [of ip]
            ipval_lt [of "map2 (AND) a (CIDRMask_loop 0 4)"] a
      by (simp add: net)
    then have "IPNet_Contains ipnet [255, 255, 255, 255] \<and> IPNet_Contains ipnet [0, 0, 0, 0]"
      by simp
    with d True z show ?thesis by simp
  next
    case False
    from getIPRange_v4_closed_form [OF p m False]
    have t: "getIPRange cidr \<noteq> None" by auto
    have n1: "1 \<le> n"
    proof (rule ccontr)
      assume "\<not> 1 \<le> n"
      then have "n = 0" by simp
      with net False show False by (simp add: CIDRMask_loop_zeros4)
    qed
    from not_both_ends [OF l n1 n] t False z show ?thesis by (auto simp: net)
  qed
qed

theorem getIPRange_terminates_iff_not_whole_space_witness:
  "getIPRange ''0.0.0.0/0'' = None
   \<and> IPNet_Contains \<lparr>IP = [0, 0, 0, 0], Mask = [0, 0, 0, 0]\<rparr> [255, 255, 255, 255]
   \<and> IPNet_Contains \<lparr>IP = [0, 0, 0, 0], Mask = [0, 0, 0, 0]\<rparr> [0, 0, 0, 0]
   \<and> getIPRange ''10.0.0.0/30'' \<noteq> None
   \<and> \<not> IPNet_Contains \<lparr>IP = [10, 0, 0, 0], Mask = [255, 255, 255, 252]\<rparr> [255, 255, 255, 255]"
proof -
  have p0: "ParseCIDR ''0.0.0.0/0''
            = Some (v4InV6Prefix @ [0, 0, 0, 0], \<lparr>IP = [0, 0, 0, 0], Mask = [0, 0, 0, 0]\<rparr>)"
    by code_simp
  have p1: "ParseCIDR ''10.0.0.0/30''
            = Some (v4InV6Prefix @ [10, 0, 0, 0], \<lparr>IP = [10, 0, 0, 0], Mask = [255, 255, 255, 252]\<rparr>)"
    by code_simp
  have z: "CIDRMask 0 32 = [0, 0, 0, 0]" by code_simp
  have c: "\<not> IPNet_Contains \<lparr>IP = [10, 0, 0, 0], Mask = [255, 255, 255, 252]\<rparr> [255, 255, 255, 255]"
    by code_simp
  show ?thesis
    using getIPRange_terminates_iff_not_whole_space [OF p0]
          getIPRange_terminates_iff_not_whole_space [OF p1] z c
    by auto
qed

text \<open>The claim as stated fails: the block 255.255.255.252/30 contains the all-ones
  address, and its expansion terminates with the four addresses of the block.\<close>

theorem getIPRange_all_ones_block_counterexample:
  "ParseCIDR ''255.255.255.252/30''
     = Some (v4InV6Prefix @ [255, 255, 255, 252],
             \<lparr>IP = [255, 255, 255, 252], Mask = [255, 255, 255, 252]\<rparr>)
   \<and> IPNet_Contains \<lparr>IP = [255, 255, 255, 252], Mask = [255, 255, 255, 252]\<rparr>
         [255, 255, 255, 255]
   \<and> getIPRange ''255.255.255.252/30''
       = Some (Inr [''255.255.255.252'', ''255.255.255.253'', ''255.255.255.254'',
                    ''255.255.255.255''])"
  by code_simp

text \<open>
  Claim C2 at its failing input. The expander returns the four addresses of 10.0.0.0/30
  in ascending order, network and broadcast address included, and an error for a text
  that is no CIDR; but for the valid CIDR 0.0.0.0/0 it does not return (\<open>None\<close>):
  after 255.255.255.255 the address wraps to 0.0.0.0, which the block contains.
\<close>

theorem getIPRange_whole_space_diverges:
  "getIPRange ''0.0.0.0/0'' = None
   \<and> getIPRange ''10.0.0.0/30''
       = Some (Inr [''10.0.0.0'', ''10.0.0.1'', ''10.0.0.2'', ''10.0.0.3''])
   \<and> getIPRange ''10.0.0.0'' = Some (Inl (ErrMsg ''invalid CIDR address: 10.0.0.0''))"
proof -
  have p0: "ParseCIDR ''0.0.0.0/0''
            = Some (v4InV6Prefix @ [0, 0, 0, 0], \<lparr>IP = [0, 0, 0, 0], Mask = [0, 0, 0, 0]\<rparr>)"
    by code_simp
  have "getIPRange ''0.0.0.0/0'' = None"
    by (rule getIPRange_v4_whole_space [OF p0]) simp
  moreover have "getIPRange ''10.0.0.0/30''
       = Some (Inr [''10.0.0.0'', ''10.0.0.1'', ''10.0.0.2'', ''10.0.0.3''])"
    by code_simp
  moreover have "getIPRange ''10.0.0.0'' = Some (Inl (ErrMsg ''invalid CIDR address: 10.0.0.0''))"
    by code_simp
  ultimately show ?thesis by simp
qed

section \<open>Properties of address extraction\<close>

subsection \<open>Decimal fields and dotted quads\<close>

























subsection \<open>The leading token holds no match\<close>



lemma run_split:
  assumes "\<not> P sp"
  shows "takeWhile P (u @ sp # t) = takeWhile P u"
    and "drop (length (takeWhile P u)) (u @ sp # t) = dropWhile P u @ sp # t"
proof -
  show "takeWhile P (u @ sp # t) = takeWhile P u"
    using assms by (induction u) auto
  show "drop (length (takeWhile P u)) (u @ sp # t) = dropWhile P u @ sp # t"
    by (induction u) auto
qed




















subsection \<open>No colon and no dot: no match\<close>





subsection \<open>IPv6 addresses written in full\<close>


lemma joinWith_Cons2:
  "joinWith '':'' (g # g' # r) = g @ CHR '':'' # joinWith '':'' (g' # r)"
  by simp



















section \<open>Properties of range membership\<close>














section \<open>Properties of session eviction\<close>

lemma evictCephFSClient_ok:
  "snd (snd (gw (''ceph'' # evictCmd nf clientID))) = None \<Longrightarrow>
   evictCephFSClient gw nf clientID tr = (None, tr @ [''ceph'' # evictCmd nf clientID])"
  by (cases "gw (''ceph'' # evictCmd nf clientID)")
     (simp add: evictCephFSClient_def ExecCommand_def)

lemma evictClients_trace:
  assumes "\<forall>c\<in>set clients. fetchIP c = Inr (ipOf c)"
    and "\<forall>c\<in>set clients. isIPInCIDR (ipOf c) cidr \<longrightarrow>
           fetchID c = Inr (idOf c) \<and> snd (snd (gw (''ceph'' # evictCmd nf (idOf c)))) = None"
  shows "\<exists>evictedIPs'. evictClients gw nf cidr clients (evictedIPs, tr)
           = (None, evictedIPs',
              tr @ map (\<lambda>c. ''ceph'' # evictCmd nf (idOf c))
                     (filter (\<lambda>c. isIPInCIDR (ipOf c) cidr) clients))"
  using assms
proof (induction clients arbitrary: evictedIPs tr)
  case Nil
  show ?case by simp
next
  case (Cons c clients)
  have ip: "fetchIP c = Inr (ipOf c)" using Cons.prems(1) by simp
  have rest1: "\<forall>c\<in>set clients. fetchIP c = Inr (ipOf c)" using Cons.prems(1) by simp
  have rest2: "\<forall>c\<in>set clients. isIPInCIDR (ipOf c) cidr \<longrightarrow>
           fetchID c = Inr (idOf c) \<and> snd (snd (gw (''ceph'' # evictCmd nf (idOf c)))) = None"
    using Cons.prems(2) by simp
  note IH = Cons.IH [OF rest1 rest2]
  show ?case
  proof (cases "isIPInCIDR (ipOf c) cidr")
    case False
    then show ?thesis using ip IH [of evictedIPs tr] by simp
  next
    case True
    then have id: "fetchID c = Inr (idOf c)"
      and ok: "snd (snd (gw (''ceph'' # evictCmd nf (idOf c)))) = None"
      using Cons.prems(2) by simp_all
    show ?thesis
      using True ip id evictCephFSClient_ok [of gw nf "idOf c" tr, OF ok]
        IH [of "insert (ipOf c) evictedIPs" "tr @ [''ceph'' # evictCmd nf (idOf c)]"]
      by simp
  qed
qed

lemma evictCidrs_trace:
  assumes "\<forall>c\<in>set clients. fetchIP c = Inr (ipOf c)"
    and "\<forall>cidr\<in>set cidrs. \<forall>c\<in>set clients. isIPInCIDR (ipOf c) cidr \<longrightarrow>
           fetchID c = Inr (idOf c) \<and> snd (snd (gw (''ceph'' # evictCmd nf (idOf c)))) = None"
  shows "\<exists>evictedIPs'. evictCidrs gw nf cidrs clients (evictedIPs, tr)
           = (None, evictedIPs',
              tr @ concat (map (\<lambda>cidr. map (\<lambda>c. ''ceph'' # evictCmd nf (idOf c))
                                       (filter (\<lambda>c. isIPInCIDR (ipOf c) cidr) clients)) cidrs))"
  using assms(2)
proof (induction cidrs arbitrary: evictedIPs tr)
  case Nil
  show ?case by simp
next
  case (Cons cidr cidrs)
  have here: "\<forall>c\<in>set clients. isIPInCIDR (ipOf c) cidr \<longrightarrow>
           fetchID c = Inr (idOf c) \<and> snd (snd (gw (''ceph'' # evictCmd nf (idOf c)))) = None"
    using Cons.prems by simp
  have rest: "\<forall>cidr\<in>set cidrs. \<forall>c\<in>set clients. isIPInCIDR (ipOf c) cidr \<longrightarrow>
           fetchID c = Inr (idOf c) \<and> snd (snd (gw (''ceph'' # evictCmd nf (idOf c)))) = None"
    using Cons.prems by simp
  obtain ev1 where 1: "evictClients gw nf cidr clients (evictedIPs, tr)
           = (None, ev1, tr @ map (\<lambda>c. ''ceph'' # evictCmd nf (idOf c))
                     (filter (\<lambda>c. isIPInCIDR (ipOf c) cidr) clients))"
    using evictClients_trace [OF assms(1) here] by blast
  show ?case
    using 1 Cons.IH [OF rest, of ev1 "tr @ map (\<lambda>c. ''ceph'' # evictCmd nf (idOf c))
                     (filter (\<lambda>c. isIPInCIDR (ipOf c) cidr) clients)"]
    by simp
qed

text \<open>
  Claim C4, as amended. When the listing succeeds, the address of every session can be
  extracted (\<open>ipOf\<close>), and for every session whose address lies inside a range the id
  can be extracted (\<open>idOf\<close>) and the gateway accepts the terminate-session command:
  \<open>AddClientEviction\<close> issues, after the listing command, for every range in turn one
  terminate-session command for each session whose address lies inside that range, and
  then goes on with \<open>AddNetworkFence\<close>. A session is thus evicted once for every range
  that holds its address.
\<close>

theorem AddClientEviction_evicts_per_range:
  assumes "gw (''ceph'' # listCmd nf) = (out, stdErr, None)"
    and "unmarshal out = Some clients"
    and "\<forall>c\<in>set clients. fetchIP c = Inr (ipOf c)"
    and "\<forall>cidr\<in>set (Cidr nf). \<forall>c\<in>set clients. isIPInCIDR (ipOf c) cidr \<longrightarrow>
           fetchID c = Inr (idOf c) \<and> snd (snd (gw (''ceph'' # evictCmd nf (idOf c)))) = None"
  shows "AddClientEviction gw unmarshal nf tr
         = AddNetworkFence gw nf
             (tr @ [''ceph'' # listCmd nf]
                 @ concat (map (\<lambda>cidr. map (\<lambda>c. ''ceph'' # evictCmd nf (idOf c))
                                          (filter (\<lambda>c. isIPInCIDR (ipOf c) cidr) clients))
                             (Cidr nf)))"
proof -
  have L: "listActiveClients gw unmarshal nf tr = (Inr clients, tr @ [''ceph'' # listCmd nf])"
    using assms(1,2) by (simp add: listActiveClients_def ExecCommand_def)
  obtain ev where E: "evictCidrs gw nf (Cidr nf) clients ({}, tr @ [''ceph'' # listCmd nf])
     = (None, ev, (tr @ [''ceph'' # listCmd nf])
                 @ concat (map (\<lambda>cidr. map (\<lambda>c. ''ceph'' # evictCmd nf (idOf c))
                                          (filter (\<lambda>c. isIPInCIDR (ipOf c) cidr) clients))
                             (Cidr nf)))"
    using evictCidrs_trace [OF assms(3,4)] by blast
  show ?thesis using L E by (simp add: AddClientEviction_def)
qed

theorem AddClientEviction_evicts_per_range_witness:
  "AddClientEviction (\<lambda>c. ([], [], None))
     (\<lambda>out. Some [\<lparr>Inst = ''client.4305 172.21.9.34:0/422650892''\<rparr>,
                   \<lparr>Inst = ''client.4306 10.1.1.1:0/7''\<rparr>])
     \<lparr>Cidr = [''192.168.0.0/16'', ''172.21.0.0/16''], Monitors = ''mon'',
      cr = \<lparr>ID = ''admin'', KeyFile = ''/k''\<rparr>\<rparr> []
   = Some (None,
       [[''ceph'', ''tell'', ''mds.0'', ''client'', ''ls'', ''--id'', ''admin'',
         ''--keyfile=/k'', ''-m'', ''mon''],
        [''ceph'', ''tell'', ''mds.0'', ''client'', ''evict'', ''id=4305'', ''--id'', ''admin'',
         ''--keyfile=/k'', ''-m'', ''mon''],
        [''ceph'', ''osd'', ''blocklist'', ''range'', ''add'', ''192.168.0.0/16'', ''157784760'',
         ''--id'', ''admin'', ''--keyfile=/k'', ''-m'', ''mon''],
        [''ceph'', ''osd'', ''blocklist'', ''range'', ''add'', ''172.21.0.0/16'', ''157784760'',
         ''--id'', ''admin'', ''--keyfile=/k'', ''-m'', ''mon'']])"
proof -
  define a where "a = \<lparr>Inst = ''client.4305 172.21.9.34:0/422650892''\<rparr>"
  define b where "b = \<lparr>Inst = ''client.4306 10.1.1.1:0/7''\<rparr>"
  define nf where "nf = \<lparr>Cidr = [''192.168.0.0/16'', ''172.21.0.0/16''], Monitors = ''mon'',
      cr = \<lparr>ID = ''admin'', KeyFile = ''/k''\<rparr>\<rparr>"
  define gw :: gateway where "gw = (\<lambda>c. ([], [], None))"
  define unm :: "string \<Rightarrow> activeClient list option" where "unm = (\<lambda>out. Some [a, b])"
  define ipOf where "ipOf = (\<lambda>c. if c = a then ''172.21.9.34'' else ''10.1.1.1'')"
  define idOf :: "activeClient \<Rightarrow> int" where "idOf = (\<lambda>c. if c = a then 4305 else 4306)"
  have ab: "b \<noteq> a" by (simp add: a_def b_def)
  have ia: "fetchIP a = Inr ''172.21.9.34''" unfolding a_def by code_simp
  have ib: "fetchIP b = Inr ''10.1.1.1''" unfolding b_def by code_simp
  have da: "fetchID a = Inr 4305" unfolding a_def by code_simp
  have db: "fetchID b = Inr 4306" unfolding b_def by code_simp
  have m: "\<not> isIPInCIDR ''172.21.9.34'' ''192.168.0.0/16''" "isIPInCIDR ''172.21.9.34'' ''172.21.0.0/16''"
     "\<not> isIPInCIDR ''10.1.1.1'' ''192.168.0.0/16''" "\<not> isIPInCIDR ''10.1.1.1'' ''172.21.0.0/16''"
    by code_simp+
  have 1: "gw (''ceph'' # listCmd nf) = ([], [], None)" by (simp add: gw_def)
  have 2: "unm [] = Some [a, b]" by (simp add: unm_def)
  have 3: "\<forall>c\<in>set [a, b]. fetchIP c = Inr (ipOf c)"
    using ia ib ab by (simp add: ipOf_def)
  have 4: "\<forall>cidr\<in>set (Cidr nf). \<forall>c\<in>set [a, b]. isIPInCIDR (ipOf c) cidr \<longrightarrow>
           fetchID c = Inr (idOf c) \<and> snd (snd (gw (''ceph'' # evictCmd nf (idOf c)))) = None"
    using da db ab by (simp add: idOf_def gw_def)
  have f: "AddNetworkFence gw nf
       [[''ceph'', ''tell'', ''mds.0'', ''client'', ''ls'', ''--id'', ''admin'',
         ''--keyfile=/k'', ''-m'', ''mon''],
        [''ceph'', ''tell'', ''mds.0'', ''client'', ''evict'', ''id=4305'', ''--id'', ''admin'',
         ''--keyfile=/k'', ''-m'', ''mon'']]
     = Some (None,
       [[''ceph'', ''tell'', ''mds.0'', ''client'', ''ls'', ''--id'', ''admin'',
         ''--keyfile=/k'', ''-m'', ''mon''],
        [''ceph'', ''tell'', ''mds.0'', ''client'', ''evict'', ''id=4305'', ''--id'', ''admin'',
         ''--keyfile=/k'', ''-m'', ''mon''],
        [''ceph'', ''osd'', ''blocklist'', ''range'', ''add'', ''192.168.0.0/16'', ''157784760'',
         ''--id'', ''admin'', ''--keyfile=/k'', ''-m'', ''mon''],
        [''ceph'', ''osd'', ''blocklist'', ''range'', ''add'', ''172.21.0.0/16'', ''157784760'',
         ''--id'', ''admin'', ''--keyfile=/k'', ''-m'', ''mon'']])"
    unfolding gw_def nf_def by code_simp
  have i0: "itoa 0 = ''0''" "itoa 4305 = ''4305''" by code_simp+
  have tr: "[] @ [''ceph'' # listCmd nf]
                 @ concat (map (\<lambda>cidr. map (\<lambda>c. ''ceph'' # evictCmd nf (idOf c))
                                          (filter (\<lambda>c. isIPInCIDR (ipOf c) cidr) [a, b]))
                             (Cidr nf))
     = [[''ceph'', ''tell'', ''mds.0'', ''client'', ''ls'', ''--id'', ''admin'',
         ''--keyfile=/k'', ''-m'', ''mon''],
        [''ceph'', ''tell'', ''mds.0'', ''client'', ''evict'', ''id=4305'', ''--id'', ''admin'',
         ''--keyfile=/k'', ''-m'', ''mon'']]"
    using m ab i0 by (simp add: nf_def ipOf_def idOf_def listCmd_def evictCmd_def credArgs_def mdsRank_def)
  have "AddClientEviction gw unm nf [] = Some (None,
       [[''ceph'', ''tell'', ''mds.0'', ''client'', ''ls'', ''--id'', ''admin'',
         ''--keyfile=/k'', ''-m'', ''mon''],
        [''ceph'', ''tell'', ''mds.0'', ''client'', ''evict'', ''id=4305'', ''--id'', ''admin'',
         ''--keyfile=/k'', ''-m'', ''mon''],
        [''ceph'', ''osd'', ''blocklist'', ''range'', ''add'', ''192.168.0.0/16'', ''157784760'',
         ''--id'', ''admin'', ''--keyfile=/k'', ''-m'', ''mon''],
        [''ceph'', ''osd'', ''blocklist'', ''range'', ''add'', ''172.21.0.0/16'', ''157784760'',
         ''--id'', ''admin'', ''--keyfile=/k'', ''-m'', ''mon'']])"
    using AddClientEviction_evicts_per_range
      [where gw = gw and nf = nf and unmarshal = unm and ipOf = ipOf and idOf = idOf
         and tr = "[]", OF 1 2 3 4]
    unfolding tr f .
  then show ?thesis unfolding gw_def unm_def nf_def a_def b_def .
qed

text \<open>The claim as stated fails: a session whose address lies inside two of the ranges
  is evicted twice, the terminate-session command for its id is issued a second time.\<close>

theorem AddClientEviction_double_eviction_counterexample:
  "AddClientEviction (\<lambda>c. ([], [], None))
     (\<lambda>out. Some [\<lparr>Inst = ''client.4305 172.21.9.34:0/422650892''\<rparr>])
     \<lparr>Cidr = [''172.21.9.34/32'', ''172.21.0.0/16''], Monitors = ''mon'',
      cr = \<lparr>ID = ''admin'', KeyFile = ''/k''\<rparr>\<rparr> []
   = Some (None,
       [[''ceph'', ''tell'', ''mds.0'', ''client'', ''ls'', ''--id'', ''admin'',
         ''--keyfile=/k'', ''-m'', ''mon''],
        [''ceph'', ''tell'', ''mds.0'', ''client'', ''evict'', ''id=4305'', ''--id'', ''admin'',
         ''--keyfile=/k'', ''-m'', ''mon''],
        [''ceph'', ''tell'', ''mds.0'', ''client'', ''evict'', ''id=4305'', ''--id'', ''admin'',
         ''--keyfile=/k'', ''-m'', ''mon''],
        [''ceph'', ''osd'', ''blocklist'', ''range'', ''add'', ''172.21.9.34/32'', ''157784760'',
         ''--id'', ''admin'', ''--keyfile=/k'', ''-m'', ''mon''],
        [''ceph'', ''osd'', ''blocklist'', ''range'', ''add'', ''172.21.0.0/16'', ''157784760'',
         ''--id'', ''admin'', ''--keyfile=/k'', ''-m'', ''mon'']])"
  by code_simp

section \<open>Properties of the blocklist controller\<close>














section \<open>Properties of key rotation\<close>

lemma set_clearSlot: "set (clearSlot slot h) = {(s, p). (s, p) \<in> set h \<and> s \<noteq> slot}"
  by (auto simp: clearSlot_def)

lemma opens_iff: "opens h p = (\<exists>s. (s, p) \<in> set h)"
  by (force simp: opens_def)

lemma opens_setSlot_new: "opens (setSlot slot p h) p"
  by (simp add: opens_def setSlot_def)

lemma opens_setSlot_keeps: "opens h p \<Longrightarrow> q = p \<Longrightarrow> opens (setSlot slot q h) p"
  by (simp add: opens_def setSlot_def)

lemma opens_setSlot_other:
  "slot \<noteq> slot' \<Longrightarrow> opens (setSlot slot q (setSlot slot' p h)) p"
  by (auto simp: opens_iff setSlot_def set_clearSlot)

lemma opens_rotated_new:
  "opens (clearSlot luksSlot1 (setSlot luksSlot0 new h)) new"
  by (auto simp: opens_iff setSlot_def set_clearSlot luksSlot0_def luksSlot1_def)

lemma not_opens_rotated_old:
  assumes "new \<noteq> old"
    and "\<forall>(s, p)\<in>set h. p = old \<longrightarrow> s = luksSlot0 \<or> s = luksSlot1"
  shows "\<not> opens (clearSlot luksSlot1 (setSlot luksSlot0 new (setSlot luksSlot1 old h))) old"
  using assms by (auto simp: opens_iff setSlot_def set_clearSlot)

lemma AddKey_cases:
  "AddKey env w dev a n slot =
     (if addKeyErr env slot = None \<and> opens (luksSlots w dev) a
      then (None, w\<lparr>calls := calls w @ [CallAddKey slot],
                     luksSlots := (luksSlots w)(dev := setSlot slot n (luksSlots w dev))\<rparr>)
      else (fst (AddKey env w dev a n slot), w\<lparr>calls := calls w @ [CallAddKey slot]\<rparr>))"
  by (simp add: AddKey_def called_def split: option.splits)

lemma AddKey_err:
  "\<not> (addKeyErr env slot = None \<and> opens (luksSlots w dev) a) \<Longrightarrow>
   fst (AddKey env w dev a n slot) \<noteq> None"
  by (auto simp add: AddKey_def called_def split: option.splits)

lemma RemoveKey_cases:
  "RemoveKey env w dev a slot =
     (if removeKeyErr env slot = None \<and> opens (luksSlots w dev) a
      then (None, w\<lparr>calls := calls w @ [CallRemoveKey slot],
                     luksSlots := (luksSlots w)(dev := clearSlot slot (luksSlots w dev))\<rparr>)
      else (fst (RemoveKey env w dev a slot), w\<lparr>calls := calls w @ [CallRemoveKey slot]\<rparr>))"
  by (simp add: RemoveKey_def called_def split: option.splits)

lemma RemoveKey_err:
  "\<not> (removeKeyErr env slot = None \<and> opens (luksSlots w dev) a) \<Longrightarrow>
   fst (RemoveKey env w dev a slot) \<noteq> None"
  by (auto simp add: RemoveKey_def called_def split: option.splits)

lemma GetCryptoPassphrase_cases:
  "GetCryptoPassphrase env w v =
     (if getPassphraseErr env = None \<and> kmsPassphrase w v \<noteq> None
      then Inr (the (kmsPassphrase w v)) else Inl (projl (fst (GetCryptoPassphrase env w v))),
      w\<lparr>calls := calls w @ [CallGetCryptoPassphrase]\<rparr>)"
  by (auto simp add: GetCryptoPassphrase_def called_def split: option.splits)

lemma StoreCryptoPassphrase_cases:
  "StoreCryptoPassphrase env w v p =
     (if storePassphraseErr env = None
      then (None, w\<lparr>calls := calls w @ [CallStoreCryptoPassphrase],
                     kmsPassphrase := (kmsPassphrase w)(v \<mapsto> p)\<rparr>)
      else (Some (ErrMsg (the (storePassphraseErr env))),
            w\<lparr>calls := calls w @ [CallStoreCryptoPassphrase]\<rparr>))"
  by (auto simp add: StoreCryptoPassphrase_def called_def split: option.splits)

text \<open>The runs of the part under the lock: the step that fails, if one does, and the
  world that the run leaves.\<close>

lemma RotateEncryptionKey_locked_shapes:
  assumes run: "RotateEncryptionKey_locked env rv w = (r, w')"
  shows "(r \<noteq> None \<and> w' = w\<lparr>calls := calls w @ [CallWaitForPath]\<rparr>)
    \<or> (r \<noteq> None \<and> w' = w\<lparr>calls := calls w @ [CallWaitForPath, CallGetCryptoPassphrase]\<rparr>)
    \<or> (r \<noteq> None \<and> w' = w\<lparr>calls := calls w @ [CallWaitForPath, CallGetCryptoPassphrase,
                                                  CallAddKey luksSlot1]\<rparr>)
    \<or> (\<exists>dev old. waitForPathResult env = Some dev \<and> kmsPassphrase w (VolID rv) = Some old
          \<and> opens (luksSlots w dev) old \<and> r \<noteq> None
          \<and> (w' = w\<lparr>calls := calls w @ [CallWaitForPath, CallGetCryptoPassphrase,
                                         CallAddKey luksSlot1, CallGetNewCryptoPassphrase],
                     luksSlots := (luksSlots w)(dev := setSlot luksSlot1 old (luksSlots w dev))\<rparr>
             \<or> w' = w\<lparr>calls := calls w @ [CallWaitForPath, CallGetCryptoPassphrase,
                                         CallAddKey luksSlot1, CallGetNewCryptoPassphrase,
                                         CallAddKey luksSlot0],
                     luksSlots := (luksSlots w)(dev := setSlot luksSlot1 old (luksSlots w dev))\<rparr>))
    \<or> (\<exists>dev old new. waitForPathResult env = Some dev \<and> kmsPassphrase w (VolID rv) = Some old
          \<and> newPassphraseResult env = Inr new \<and> opens (luksSlots w dev) old \<and> r \<noteq> None
          \<and> w' = w\<lparr>calls := calls w @ [CallWaitForPath, CallGetCryptoPassphrase,
                                         CallAddKey luksSlot1, CallGetNewCryptoPassphrase,
                                         CallAddKey luksSlot0, CallStoreCryptoPassphrase],
                     luksSlots := (luksSlots w)(dev := setSlot luksSlot0 new
                                      (setSlot luksSlot1 old (luksSlots w dev)))\<rparr>)
    \<or> (\<exists>dev old new. waitForPathResult env = Some dev \<and> kmsPassphrase w (VolID rv) = Some old
          \<and> newPassphraseResult env = Inr new \<and> opens (luksSlots w dev) old \<and> r \<noteq> None
          \<and> w' = w\<lparr>calls := calls w @ [CallWaitForPath, CallGetCryptoPassphrase,
                                         CallAddKey luksSlot1, CallGetNewCryptoPassphrase,
                                         CallAddKey luksSlot0, CallStoreCryptoPassphrase,
                                         CallRemoveKey luksSlot1],
                     kmsPassphrase := (kmsPassphrase w)(VolID rv \<mapsto> new),
                     luksSlots := (luksSlots w)(dev := setSlot luksSlot0 new
                                      (setSlot luksSlot1 old (luksSlots w dev)))\<rparr>)
    \<or> (\<exists>dev old new. waitForPathResult env = Some dev \<and> kmsPassphrase w (VolID rv) = Some old
          \<and> newPassphraseResult env = Inr new \<and> opens (luksSlots w dev) old \<and> r = None
          \<and> w' = w\<lparr>calls := calls w @ [CallWaitForPath, CallGetCryptoPassphrase,
                                         CallAddKey luksSlot1, CallGetNewCryptoPassphrase,
                                         CallAddKey luksSlot0, CallStoreCryptoPassphrase,
                                         CallRemoveKey luksSlot1],
                     kmsPassphrase := (kmsPassphrase w)(VolID rv \<mapsto> new),
                     luksSlots := (luksSlots w)(dev := clearSlot luksSlot1 (setSlot luksSlot0 new
                                      (setSlot luksSlot1 old (luksSlots w dev))))\<rparr>)"
proof (cases "waitForPathResult env")
  case None
  then show ?thesis using run
    by (auto simp: RotateEncryptionKey_locked_def waitForPath_def called_def)
next
  case (Some dev)
  note dev = this
  let ?w1 = "w\<lparr>calls := calls w @ [CallWaitForPath]\<rparr>"
  show ?thesis
  proof (cases "getPassphraseErr env = None \<and> kmsPassphrase w (VolID rv) \<noteq> None")
    case False
    then show ?thesis using run dev
      by (auto simp: RotateEncryptionKey_locked_def waitForPath_def called_def
            GetCryptoPassphrase_def split: option.splits)
  next
    case True
    then obtain old where old: "kmsPassphrase w (VolID rv) = Some old" and g: "getPassphraseErr env = None"
      by auto
    let ?w2 = "w\<lparr>calls := calls w @ [CallWaitForPath, CallGetCryptoPassphrase]\<rparr>"
    have G: "GetCryptoPassphrase env ?w1 (VolID rv) = (Inr old, ?w2)"
      using old g by (simp add: GetCryptoPassphrase_def called_def)
    show ?thesis
    proof (cases "addKeyErr env luksSlot1 = None \<and> opens (luksSlots w dev) old")
      case False
      then have "fst (AddKey env ?w2 dev old old luksSlot1) \<noteq> None"
        by (intro AddKey_err) simp
      moreover have "snd (AddKey env ?w2 dev old old luksSlot1)
          = w\<lparr>calls := calls w @ [CallWaitForPath, CallGetCryptoPassphrase, CallAddKey luksSlot1]\<rparr>"
        using False by (subst AddKey_cases) auto
      ultimately show ?thesis using run dev G
        by (auto simp: RotateEncryptionKey_locked_def waitForPath_def called_def
              split: prod.splits option.splits)
    next
      case True
      then have op: "opens (luksSlots w dev) old" by simp
      let ?h1 = "setSlot luksSlot1 old (luksSlots w dev)"
      let ?w3 = "w\<lparr>calls := calls w @ [CallWaitForPath, CallGetCryptoPassphrase, CallAddKey luksSlot1],
                    luksSlots := (luksSlots w)(dev := ?h1)\<rparr>"
      have A1: "AddKey env ?w2 dev old old luksSlot1 = (None, ?w3)"
        using True by (subst AddKey_cases) simp
      let ?w4 = "w\<lparr>calls := calls w @ [CallWaitForPath, CallGetCryptoPassphrase, CallAddKey luksSlot1,
                                       CallGetNewCryptoPassphrase],
                    luksSlots := (luksSlots w)(dev := ?h1)\<rparr>"
      have N: "GetNewCryptoPassphrase env ?w3 GetEncryptionPassphraseSize
                 = (newPassphraseResult env, ?w4)"
        by (simp add: GetNewCryptoPassphrase_def called_def)
      show ?thesis
      proof (cases "newPassphraseResult env")
        case (Inl e)
        then have "r \<noteq> None \<and> w' = ?w4" using run dev G A1 N
          by (auto simp: RotateEncryptionKey_locked_def waitForPath_def called_def)
        then show ?thesis using dev old op by blast
      next
        case (Inr new)
        note new = this
        let ?w5f = "w\<lparr>calls := calls w @ [CallWaitForPath, CallGetCryptoPassphrase, CallAddKey luksSlot1,
                                       CallGetNewCryptoPassphrase, CallAddKey luksSlot0],
                    luksSlots := (luksSlots w)(dev := ?h1)\<rparr>"
        have op1: "opens (luksSlots ?w4 dev) old" by (simp add: opens_setSlot_new)
        show ?thesis
        proof (cases "addKeyErr env luksSlot0 = None")
          case False
          then have "fst (AddKey env ?w4 dev old new luksSlot0) \<noteq> None"
            by (intro AddKey_err) simp
          moreover have "snd (AddKey env ?w4 dev old new luksSlot0) = ?w5f"
            using False by (subst AddKey_cases) auto
          ultimately have "r \<noteq> None \<and> w' = ?w5f" using run dev G A1 N new
            by (auto simp: RotateEncryptionKey_locked_def waitForPath_def called_def
                  split: prod.splits option.splits)
          then show ?thesis using dev old op by blast
        next
          case True
          let ?h2 = "setSlot luksSlot0 new ?h1"
          let ?w5 = "w\<lparr>calls := calls w @ [CallWaitForPath, CallGetCryptoPassphrase, CallAddKey luksSlot1,
                                       CallGetNewCryptoPassphrase, CallAddKey luksSlot0],
                    luksSlots := (luksSlots w)(dev := ?h2)\<rparr>"
          have A0: "AddKey env ?w4 dev old new luksSlot0 = (None, ?w5)"
            using True op1 by (subst AddKey_cases) simp
          show ?thesis
          proof (cases "storePassphraseErr env")
            case (Some e)
            let ?w6f = "w\<lparr>calls := calls w @ [CallWaitForPath, CallGetCryptoPassphrase, CallAddKey luksSlot1,
                                       CallGetNewCryptoPassphrase, CallAddKey luksSlot0,
                                       CallStoreCryptoPassphrase],
                    luksSlots := (luksSlots w)(dev := ?h2)\<rparr>"
            have "StoreCryptoPassphrase env ?w5 (VolID rv) new = (Some (ErrMsg e), ?w6f)"
              using Some by (simp add: StoreCryptoPassphrase_def called_def)
            then have "r \<noteq> None \<and> w' = ?w6f" using run dev G A1 N new A0
              by (auto simp: RotateEncryptionKey_locked_def waitForPath_def called_def)
            then show ?thesis using dev old op new by blast
          next
            case None
            let ?w6 = "w\<lparr>calls := calls w @ [CallWaitForPath, CallGetCryptoPassphrase, CallAddKey luksSlot1,
                                       CallGetNewCryptoPassphrase, CallAddKey luksSlot0,
                                       CallStoreCryptoPassphrase],
                    kmsPassphrase := (kmsPassphrase w)(VolID rv \<mapsto> new),
                    luksSlots := (luksSlots w)(dev := ?h2)\<rparr>"
            have S: "StoreCryptoPassphrase env ?w5 (VolID rv) new = (None, ?w6)"
              using None by (simp add: StoreCryptoPassphrase_def called_def)
            have op2: "opens (luksSlots ?w6 dev) new" by (simp add: opens_setSlot_new)
            let ?w7f = "w\<lparr>calls := calls w @ [CallWaitForPath, CallGetCryptoPassphrase, CallAddKey luksSlot1,
                                       CallGetNewCryptoPassphrase, CallAddKey luksSlot0,
                                       CallStoreCryptoPassphrase, CallRemoveKey luksSlot1],
                    kmsPassphrase := (kmsPassphrase w)(VolID rv \<mapsto> new),
                    luksSlots := (luksSlots w)(dev := ?h2)\<rparr>"
            let ?w7 = "w\<lparr>calls := calls w @ [CallWaitForPath, CallGetCryptoPassphrase, CallAddKey luksSlot1,
                                       CallGetNewCryptoPassphrase, CallAddKey luksSlot0,
                                       CallStoreCryptoPassphrase, CallRemoveKey luksSlot1],
                    kmsPassphrase := (kmsPassphrase w)(VolID rv \<mapsto> new),
                    luksSlots := (luksSlots w)(dev := clearSlot luksSlot1 ?h2)\<rparr>"
            show ?thesis
            proof (cases "removeKeyErr env luksSlot1 = None")
              case False
              then have "fst (RemoveKey env ?w6 dev new luksSlot1) \<noteq> None"
                by (intro RemoveKey_err) simp
              moreover have "snd (RemoveKey env ?w6 dev new luksSlot1) = ?w7f"
                using False by (subst RemoveKey_cases) auto
              ultimately have "r \<noteq> None \<and> w' = ?w7f" using run dev G A1 N new A0 S
                by (auto simp: RotateEncryptionKey_locked_def waitForPath_def called_def
                      split: prod.splits option.splits)
              then show ?thesis using dev old op new by blast
            next
              case True
              have "RemoveKey env ?w6 dev new luksSlot1 = (None, ?w7)"
                using True op2 by (subst RemoveKey_cases) simp
              then have "r = None \<and> w' = ?w7" using run dev G A1 N new A0 S
                by (auto simp: RotateEncryptionKey_locked_def waitForPath_def called_def)
              then show ?thesis using dev old op new by blast
            qed
          qed
        qed
      qed
    qed
  qed
qed

lemma checkRbdImageEncrypted_VolID: "VolID (snd (checkRbdImageEncrypted ri)) = VolID ri"
  by (auto simp: checkRbdImageEncrypted_def MigrateMetadata_def GetMetadata_def SetMetadata_def Let_def
       split: prod.splits sum.splits go_error.splits option.splits)

lemma trace_k:
  "k \<le> 9 \<Longrightarrow> xs = take k rotationSteps @ (if 2 < k then [CallUnlock] else []) \<Longrightarrow>
   \<exists>k\<le>9. xs = take k rotationSteps @ (if 2 < k then [CallUnlock] else [])"
  by blast

lemma newCalls_append: "calls w' = calls w @ xs \<Longrightarrow> newCalls w w' = xs"
  by (simp add: newCalls_def)

text \<open>
  Claim C1. For every run of \<open>RotateEncryptionKey\<close>, from every state of the KMS, of the
  LUKS key slots and of the lock, and whatever the external calls answer:
  \<^item> when the run returns no error, the volume is block-encrypted and in state
    \<open>encrypted\<close>, every step was made, the device is opened by the new passphrase, the
    KMS holds the new passphrase, and the device is not opened by the old passphrase
    (when the new passphrase differs from the old one and the old one was held by no
    key slot but the two that the rotation uses);
  \<^item> when the run returns an error, the calls made are the steps up to the failing one,
    followed by the release of the lock when the lock had been acquired: no later step
    is made;
  \<^item> when the run fails at the removal of the backup slot, the device is opened by the
    new passphrase, which the KMS holds;
  \<^item> when the run fails before the KMS is updated, the KMS holds what it held, and the
    old passphrase opens the device if it did before;
  \<^item> when the volume is not block-encrypted or not in state \<open>encrypted\<close>, the run fails
    and changes nothing;
  \<^item> the lock is held after the run exactly when it was held before it: a run that
    acquires the lock releases it.
\<close>

theorem RotateEncryptionKey_crash_safe:
  assumes run: "RotateEncryptionKey env rv w = (r, rv', w')"
  shows "(r = None \<longrightarrow>
            isBlockEncrypted rv \<and> fst (checkRbdImageEncrypted rv) = (rbdImageEncrypted, None)
          \<and> newCalls w w' = rotationSteps @ [CallUnlock]
          \<and> (\<exists>dev old new. waitForPathResult env = Some dev
                \<and> kmsPassphrase w (VolID rv) = Some old \<and> newPassphraseResult env = Inr new
                \<and> opens (luksSlots w' dev) new \<and> kmsPassphrase w' (VolID rv) = Some new
                \<and> (new \<noteq> old
                     \<and> (\<forall>(s, p)\<in>set (luksSlots w dev). p = old \<longrightarrow> s = luksSlot0 \<or> s = luksSlot1)
                    \<longrightarrow> \<not> opens (luksSlots w' dev) old)))
     \<and> (r \<noteq> None \<longrightarrow>
           (\<exists>k\<le>9. newCalls w w' = take k rotationSteps @ (if 2 < k then [CallUnlock] else [])))
     \<and> (r \<noteq> None \<and> CallRemoveKey luksSlot1 \<in> set (newCalls w w') \<longrightarrow>
           (\<exists>dev new. waitForPathResult env = Some dev \<and> newPassphraseResult env = Inr new
                \<and> opens (luksSlots w' dev) new \<and> kmsPassphrase w' (VolID rv) = Some new))
     \<and> (r \<noteq> None \<and> CallStoreCryptoPassphrase \<notin> set (newCalls w w') \<longrightarrow>
           kmsPassphrase w' = kmsPassphrase w
         \<and> (\<forall>dev old. kmsPassphrase w (VolID rv) = Some old \<and> opens (luksSlots w dev) old
                \<longrightarrow> opens (luksSlots w' dev) old))
     \<and> (\<not> isBlockEncrypted rv \<or> fst (checkRbdImageEncrypted rv) \<noteq> (rbdImageEncrypted, None)
          \<longrightarrow> r \<noteq> None \<and> w' = w)
     \<and> lockHeld w' = lockHeld w
     \<and> calls w' = calls w @ newCalls w w'"
proof (cases "isBlockEncrypted rv \<and> fst (checkRbdImageEncrypted rv) = (rbdImageEncrypted, None)")
  case False
  then have "r \<noteq> None \<and> w' = w" using run
    by (auto simp: RotateEncryptionKey_def split: prod.splits option.splits if_splits)
  moreover have "\<exists>k\<le>9. [] = take k rotationSteps @ (if 2 < k then [CallUnlock] else [])"
    by (rule trace_k [of 0]) simp_all
  ultimately show ?thesis using False by (simp add: newCalls_def)
next
  case True
  note pre = this
  obtain rv1 where chk: "checkRbdImageEncrypted rv = ((rbdImageEncrypted, None), rv1)"
    using True by (cases "checkRbdImageEncrypted rv") auto
  have vol: "VolID rv1 = VolID rv" using checkRbdImageEncrypted_VolID [of rv] chk by simp
  let ?w1 = "w\<lparr>calls := calls w @ [CallOpenIoctx]\<rparr>"
  show ?thesis
  proof (cases "openIoctxErr env")
    case (Some e)
    then have "r \<noteq> None \<and> w' = ?w1" using run pre chk
      by (auto simp add: RotateEncryptionKey_def openIoctx_def called_def)
    moreover have "\<exists>k\<le>9. [CallOpenIoctx] = take k rotationSteps @ (if 2 < k then [CallUnlock] else [])"
      by (rule trace_k [of 1]) (simp_all add: rotationSteps_def)
    ultimately show ?thesis using pre by (simp add: newCalls_def)
  next
    case None
    note o = this
    let ?w2f = "w\<lparr>calls := calls w @ [CallOpenIoctx, CallLockExclusive]\<rparr>"
    show ?thesis
    proof (cases "lockErr env = None \<and> \<not> lockHeld w")
      case False
      then have "r \<noteq> None \<and> w' = ?w2f" using run pre chk o
        by (auto simp add: RotateEncryptionKey_def openIoctx_def LockExclusive_def called_def
              split: option.splits)
      moreover have "\<exists>k\<le>9. [CallOpenIoctx, CallLockExclusive]
                        = take k rotationSteps @ (if 2 < k then [CallUnlock] else [])"
        by (rule trace_k [of 2]) (simp_all add: rotationSteps_def)
      ultimately show ?thesis using pre by (simp add: newCalls_def)
    next
      case True
      then have free: "\<not> lockHeld w" by simp
      let ?w2 = "w\<lparr>calls := calls w @ [CallOpenIoctx, CallLockExclusive], lockHeld := True\<rparr>"
      obtain r3 w3 where L: "RotateEncryptionKey_locked env rv1 ?w2 = (r3, w3)"
        by (cases "RotateEncryptionKey_locked env rv1 ?w2")
      have res: "r = r3 \<and> w' = Unlock w3" using run pre chk o True L
        by (simp add: RotateEncryptionKey_def openIoctx_def LockExclusive_def called_def)
      have res: "r = r3" "w' = Unlock w3" using res by simp_all
      note U = Unlock_def called_def newCalls_def vol
      note S = RotateEncryptionKey_locked_shapes [OF L]
      have slots: "luksSlot0 \<noteq> luksSlot1" by (simp add: luksSlot0_def luksSlot1_def)
      from S show ?thesis
      proof (elim disjE exE conjE)
        assume a: "r3 \<noteq> None" "w3 = ?w2\<lparr>calls := calls ?w2 @ [CallWaitForPath]\<rparr>"
        have "\<exists>k\<le>9. newCalls w w' = take k rotationSteps @ (if 2 < k then [CallUnlock] else [])"
          by (rule trace_k [of 3]) (simp_all add: a res U rotationSteps_def)
        then show ?thesis using a res pre free by (auto simp add: U)
      next
        assume a: "r3 \<noteq> None"
          "w3 = ?w2\<lparr>calls := calls ?w2 @ [CallWaitForPath, CallGetCryptoPassphrase]\<rparr>"
        have "\<exists>k\<le>9. newCalls w w' = take k rotationSteps @ (if 2 < k then [CallUnlock] else [])"
          by (rule trace_k [of 4]) (simp_all add: a res U rotationSteps_def)
        then show ?thesis using a res pre free by (auto simp add: U)
      next
        assume a: "r3 \<noteq> None"
          "w3 = ?w2\<lparr>calls := calls ?w2 @ [CallWaitForPath, CallGetCryptoPassphrase,
                                           CallAddKey luksSlot1]\<rparr>"
        have "\<exists>k\<le>9. newCalls w w' = take k rotationSteps @ (if 2 < k then [CallUnlock] else [])"
          by (rule trace_k [of 5]) (simp_all add: a res U rotationSteps_def)
        then show ?thesis using a res pre free by (auto simp add: U)
      next
        fix dev old
        assume a: "waitForPathResult env = Some dev" "kmsPassphrase ?w2 (VolID rv1) = Some old"
          "opens (luksSlots ?w2 dev) old" "r3 \<noteq> None"
          "w3 = ?w2\<lparr>calls := calls ?w2 @ [CallWaitForPath, CallGetCryptoPassphrase,
                                         CallAddKey luksSlot1, CallGetNewCryptoPassphrase],
                     luksSlots := (luksSlots ?w2)(dev := setSlot luksSlot1 old (luksSlots ?w2 dev))\<rparr>"
        have "\<exists>k\<le>9. newCalls w w' = take k rotationSteps @ (if 2 < k then [CallUnlock] else [])"
          by (rule trace_k [of 6]) (simp_all add: a res U rotationSteps_def)
        then show ?thesis using a res pre free by (auto simp add: U opens_setSlot_new)
      next
        fix dev old
        assume a: "waitForPathResult env = Some dev" "kmsPassphrase ?w2 (VolID rv1) = Some old"
          "opens (luksSlots ?w2 dev) old" "r3 \<noteq> None"
          "w3 = ?w2\<lparr>calls := calls ?w2 @ [CallWaitForPath, CallGetCryptoPassphrase,
                                         CallAddKey luksSlot1, CallGetNewCryptoPassphrase,
                                         CallAddKey luksSlot0],
                     luksSlots := (luksSlots ?w2)(dev := setSlot luksSlot1 old (luksSlots ?w2 dev))\<rparr>"
        have "\<exists>k\<le>9. newCalls w w' = take k rotationSteps @ (if 2 < k then [CallUnlock] else [])"
          by (rule trace_k [of 7]) (simp_all add: a res U rotationSteps_def)
        then show ?thesis using a res pre free by (auto simp add: U opens_setSlot_new)
      next
        fix dev old new
        assume a: "waitForPathResult env = Some dev" "kmsPassphrase ?w2 (VolID rv1) = Some old"
          "newPassphraseResult env = Inr new" "opens (luksSlots ?w2 dev) old" "r3 \<noteq> None"
          "w3 = ?w2\<lparr>calls := calls ?w2 @ [CallWaitForPath, CallGetCryptoPassphrase,
                                         CallAddKey luksSlot1, CallGetNewCryptoPassphrase,
                                         CallAddKey luksSlot0, CallStoreCryptoPassphrase],
                     luksSlots := (luksSlots ?w2)(dev := setSlot luksSlot0 new
                                      (setSlot luksSlot1 old (luksSlots ?w2 dev)))\<rparr>"
        have "\<exists>k\<le>9. newCalls w w' = take k rotationSteps @ (if 2 < k then [CallUnlock] else [])"
          by (rule trace_k [of 8]) (simp_all add: a res U rotationSteps_def)
        then show ?thesis using a res pre free by (auto simp add: U)
      next
        fix dev old new
        assume a: "waitForPathResult env = Some dev" "kmsPassphrase ?w2 (VolID rv1) = Some old"
          "newPassphraseResult env = Inr new" "opens (luksSlots ?w2 dev) old" "r3 \<noteq> None"
          "w3 = ?w2\<lparr>calls := calls ?w2 @ [CallWaitForPath, CallGetCryptoPassphrase,
                                         CallAddKey luksSlot1, CallGetNewCryptoPassphrase,
                                         CallAddKey luksSlot0, CallStoreCryptoPassphrase,
                                         CallRemoveKey luksSlot1],
                     kmsPassphrase := (kmsPassphrase ?w2)(VolID rv1 \<mapsto> new),
                     luksSlots := (luksSlots ?w2)(dev := setSlot luksSlot0 new
                                      (setSlot luksSlot1 old (luksSlots ?w2 dev)))\<rparr>"
        have "\<exists>k\<le>9. newCalls w w' = take k rotationSteps @ (if 2 < k then [CallUnlock] else [])"
          by (rule trace_k [of 9]) (simp_all add: a res U rotationSteps_def)
        then show ?thesis using a res pre free by (auto simp add: U opens_setSlot_new)
      next
        fix dev old new
        assume a: "waitForPathResult env = Some dev" "kmsPassphrase ?w2 (VolID rv1) = Some old"
          "newPassphraseResult env = Inr new" "opens (luksSlots ?w2 dev) old" "r3 = None"
          "w3 = ?w2\<lparr>calls := calls ?w2 @ [CallWaitForPath, CallGetCryptoPassphrase,
                                         CallAddKey luksSlot1, CallGetNewCryptoPassphrase,
                                         CallAddKey luksSlot0, CallStoreCryptoPassphrase,
                                         CallRemoveKey luksSlot1],
                     kmsPassphrase := (kmsPassphrase ?w2)(VolID rv1 \<mapsto> new),
                     luksSlots := (luksSlots ?w2)(dev := clearSlot luksSlot1 (setSlot luksSlot0 new
                                      (setSlot luksSlot1 old (luksSlots ?w2 dev))))\<rparr>"
        have n: "newCalls w w' = rotationSteps @ [CallUnlock]"
          by (simp add: a res U rotationSteps_def)
        have "new \<noteq> old \<and> (\<forall>(s, p)\<in>set (luksSlots w dev). p = old \<longrightarrow> s = luksSlot0 \<or> s = luksSlot1)
                \<longrightarrow> \<not> opens (clearSlot luksSlot1 (setSlot luksSlot0 new
                                      (setSlot luksSlot1 old (luksSlots w dev)))) old"
          using not_opens_rotated_old [of new old "luksSlots w dev"] by blast
        then show ?thesis using a res pre free n
          by (simp add: U opens_rotated_new del: split_paired_All)
      qed
    qed
  qed
qed

theorem RotateEncryptionKey_crash_safe_witness:
  "(let env = \<lparr>openIoctxErr = None, lockErr = None, waitForPathResult = Some ''/dev/rbd0'',
                getPassphraseErr = None, newPassphraseResult = Inr ''new'',
                storePassphraseErr = None, addKeyErr = (\<lambda>slot. None),
                removeKeyErr = (\<lambda>slot. None)\<rparr>;
        rv = \<lparr>VolID = ''vol1'', metadata = [encryptionMetaKey \<mapsto> ''encrypted''], ioError = None,
               accesses = [], blockEncryption = True\<rparr>;
        w = \<lparr>kmsPassphrase = [''vol1'' \<mapsto> ''old''],
              luksSlots = (\<lambda>dev. if dev = ''/dev/rbd0'' then [(luksSlot0, ''old'')] else []),
              lockHeld = False, calls = []\<rparr>
    in (case RotateEncryptionKey env rv w of
          (r, rv', w') \<Rightarrow>
            r = None \<and> opens (luksSlots w' ''/dev/rbd0'') ''new''
            \<and> \<not> opens (luksSlots w' ''/dev/rbd0'') ''old''
            \<and> kmsPassphrase w' ''vol1'' = Some ''new'' \<and> \<not> lockHeld w'
            \<and> calls w' = rotationSteps @ [CallUnlock])
     \<and> (case RotateEncryptionKey (env\<lparr>removeKeyErr := (\<lambda>slot. Some ''timed out'')\<rparr>) rv w of
          (r, rv', w') \<Rightarrow>
            r \<noteq> None \<and> opens (luksSlots w' ''/dev/rbd0'') ''new''
            \<and> kmsPassphrase w' ''vol1'' = Some ''new'' \<and> \<not> lockHeld w'
            \<and> calls w' = rotationSteps @ [CallUnlock])
     \<and> (case RotateEncryptionKey
                 (env\<lparr>addKeyErr := (\<lambda>slot. if slot = luksSlot0 then Some ''timed out'' else None)\<rparr>)
                 rv w of
          (r, rv', w') \<Rightarrow>
            r \<noteq> None \<and> opens (luksSlots w' ''/dev/rbd0'') ''old''
            \<and> kmsPassphrase w' ''vol1'' = Some ''old'' \<and> \<not> lockHeld w'
            \<and> calls w' = take 7 rotationSteps @ [CallUnlock]))"
proof -
  define env where "env = \<lparr>openIoctxErr = None, lockErr = None, waitForPathResult = Some ''/dev/rbd0'',
                getPassphraseErr = None, newPassphraseResult = Inr ''new'',
                storePassphraseErr = None, addKeyErr = (\<lambda>slot. None),
                removeKeyErr = (\<lambda>slot. None)\<rparr>"
  define rv where "rv = \<lparr>VolID = ''vol1'', metadata = [encryptionMetaKey \<mapsto> ''encrypted''], ioError = None,
               accesses = [], blockEncryption = True\<rparr>"
  define w where "w = \<lparr>kmsPassphrase = [''vol1'' \<mapsto> ''old''],
              luksSlots = (\<lambda>dev. if dev = ''/dev/rbd0'' then [(luksSlot0, ''old'')] else []),
              lockHeld = False, calls = []\<rparr>"
  define envR where "envR = env\<lparr>removeKeyErr := (\<lambda>slot. Some ''timed out'')\<rparr>"
  define envA where
    "envA = env\<lparr>addKeyErr := (\<lambda>slot. if slot = luksSlot0 then Some ''timed out'' else None)\<rparr>"
  have w_facts: "kmsPassphrase w ''vol1'' = Some ''old''" "\<not> lockHeld w" "calls w = []"
    "luksSlots w ''/dev/rbd0'' = [(luksSlot0, ''old'')]" "VolID rv = ''vol1''"
    by (simp_all add: w_def rv_def)
  have env_facts: "waitForPathResult env = Some ''/dev/rbd0''" "newPassphraseResult env = Inr ''new''"
    "waitForPathResult envR = Some ''/dev/rbd0''" "newPassphraseResult envR = Inr ''new''"
    by (simp_all add: env_def envR_def)
  have only: "''new'' \<noteq> ''old''
      \<and> (\<forall>(s, p)\<in>set (luksSlots w ''/dev/rbd0''). p = ''old'' \<longrightarrow> s = luksSlot0 \<or> s = luksSlot1)"
    by (simp add: w_facts)
  have 1: "case RotateEncryptionKey env rv w of
          (r, rv', w') \<Rightarrow>
            r = None \<and> opens (luksSlots w' ''/dev/rbd0'') ''new''
            \<and> \<not> opens (luksSlots w' ''/dev/rbd0'') ''old''
            \<and> kmsPassphrase w' ''vol1'' = Some ''new'' \<and> \<not> lockHeld w'
            \<and> calls w' = rotationSteps @ [CallUnlock]"
  proof -
    obtain r rv' w' where run: "RotateEncryptionKey env rv w = (r, rv', w')"
      by (cases "RotateEncryptionKey env rv w")
    have "fst (RotateEncryptionKey env rv w) = None"
      unfolding env_def rv_def w_def by code_simp
    then have r: "r = None" using run by simp
    note T = RotateEncryptionKey_crash_safe [OF run]
    from T r only show ?thesis
      unfolding run by (auto simp add: w_facts env_facts)
  qed
  have 2: "case RotateEncryptionKey envR rv w of
          (r, rv', w') \<Rightarrow>
            r \<noteq> None \<and> opens (luksSlots w' ''/dev/rbd0'') ''new''
            \<and> kmsPassphrase w' ''vol1'' = Some ''new'' \<and> \<not> lockHeld w'
            \<and> calls w' = rotationSteps @ [CallUnlock]"
  proof -
    obtain r rv' w' where run: "RotateEncryptionKey envR rv w = (r, rv', w')"
      by (cases "RotateEncryptionKey envR rv w")
    have "fst (RotateEncryptionKey envR rv w) \<noteq> None"
      unfolding envR_def env_def rv_def w_def by code_simp
    then have r: "r \<noteq> None" using run by simp
    have "calls (snd (snd (RotateEncryptionKey envR rv w))) = rotationSteps @ [CallUnlock]"
      unfolding envR_def env_def rv_def w_def by code_simp
    then have c: "calls w' = rotationSteps @ [CallUnlock]" using run by simp
    then have n: "newCalls w w' = rotationSteps @ [CallUnlock]"
      by (simp add: newCalls_def w_facts)
    have m: "CallRemoveKey luksSlot1 \<in> set (newCalls w w')"
      unfolding n by (simp add: rotationSteps_def)
    note T = RotateEncryptionKey_crash_safe [OF run]
    from T r m c show ?thesis
      unfolding run by (auto simp add: w_facts env_facts)
  qed
  have 3: "case RotateEncryptionKey envA rv w of
          (r, rv', w') \<Rightarrow>
            r \<noteq> None \<and> opens (luksSlots w' ''/dev/rbd0'') ''old''
            \<and> kmsPassphrase w' ''vol1'' = Some ''old'' \<and> \<not> lockHeld w'
            \<and> calls w' = take 7 rotationSteps @ [CallUnlock]"
  proof -
    obtain r rv' w' where run: "RotateEncryptionKey envA rv w = (r, rv', w')"
      by (cases "RotateEncryptionKey envA rv w")
    have "fst (RotateEncryptionKey envA rv w) \<noteq> None"
      unfolding envA_def env_def rv_def w_def by code_simp
    then have r: "r \<noteq> None" using run by simp
    have "calls (snd (snd (RotateEncryptionKey envA rv w))) = take 7 rotationSteps @ [CallUnlock]"
      unfolding envA_def env_def rv_def w_def by code_simp
    then have c: "calls w' = take 7 rotationSteps @ [CallUnlock]" using run by simp
    then have n: "newCalls w w' = take 7 rotationSteps @ [CallUnlock]"
      by (simp add: newCalls_def w_facts)
    have m: "CallStoreCryptoPassphrase \<notin> set (newCalls w w')"
      unfolding n by (simp add: rotationSteps_def)
    have o: "opens (luksSlots w ''/dev/rbd0'') ''old''" by (simp add: w_facts opens_def)
    note T = RotateEncryptionKey_crash_safe [OF run]
    from T r m c o show ?thesis
      unfolding run by (auto simp add: w_facts env_facts)
  qed
  from 1 2 3 show ?thesis
    unfolding Let_def envR_def envA_def env_def rv_def w_def by blast
qed

end
